theory Spec2Isabelle
  imports Complex_Main
begin

section \<open>Values\<close>

text \<open>
  The notebook computes with NumPy \<open>float64\<close> values. A finite \<open>float64\<close> is modelled
  by a real number: rounding and overflow are not part of this model. The special values
  of IEEE 754 arithmetic are kept where the program can produce them from finite data,
  which is in the division and the logarithm of the Hurst estimator and in the statistics
  computed from its results. Signed zeros are not distinguished; the only zero the
  estimator divides by is a sum of squares, which is \<open>+0\<close>.
\<close>

datatype error = LinAlgError | ValueError | IndexError | ZeroDivisionError

datatype npfloat = Finite real | PosInf | NegInf | NaN

text \<open>
  The accumulators \<open>s1\<close> and \<open>s2\<close> start as the Python integer \<open>0\<close> and become a
  \<open>float64\<close> with the first \<open>+=\<close> of a \<open>float64\<close> term.
\<close>

datatype pynum = PyInt int | NpFloat real

fun pynum_val :: "pynum \<Rightarrow> real" where
  "pynum_val (PyInt n) = of_int n"
| "pynum_val (NpFloat x) = x"

fun is_finite :: "npfloat \<Rightarrow> bool" where
  "is_finite (Finite x) = True"
| "is_finite PosInf = False"
| "is_finite NegInf = False"
| "is_finite NaN = False"

text \<open>\<open>s += x\<close> for a \<open>float64\<close> term \<open>x\<close>.\<close>

fun py_iadd :: "pynum \<Rightarrow> real \<Rightarrow> pynum" where
  "py_iadd (PyInt n) x = NpFloat (of_int n + x)"
| "py_iadd (NpFloat a) x = NpFloat (a + x)"

text \<open>
  Division of two finite \<open>float64\<close> values: NumPy warns on a zero divisor and returns
  an infinity, or NaN for \<open>0 / 0\<close>; it does not raise.
\<close>

definition np_divide :: "real \<Rightarrow> real \<Rightarrow> npfloat" where
  "np_divide x y =
     (if y = 0 then (if x = 0 then NaN else if 0 < x then PosInf else NegInf)
      else Finite (x / y))"

text \<open>
  \<open>s1 / s2\<close>. Two Python integers are divided by Python, which raises
  \<open>ZeroDivisionError\<close> on a zero divisor; as soon as one operand is a \<open>float64\<close> the
  division is NumPy's.
\<close>

fun py_truediv :: "pynum \<Rightarrow> pynum \<Rightarrow> error + npfloat" where
  "py_truediv (PyInt a) (PyInt b) =
     (if b = 0 then Inl ZeroDivisionError else Inr (Finite (of_int a / of_int b)))"
| "py_truediv (PyInt a) (NpFloat y) = Inr (np_divide (of_int a) y)"
| "py_truediv (NpFloat x) (PyInt b) = Inr (np_divide x (of_int b))"
| "py_truediv (NpFloat x) (NpFloat y) = Inr (np_divide x y)"

text \<open>\<open>np.log\<close>: \<open>-inf\<close> at zero, NaN below zero.\<close>

fun np_log :: "npfloat \<Rightarrow> npfloat" where
  "np_log (Finite x) = (if 0 < x then Finite (ln x) else if x = 0 then NegInf else NaN)"
| "np_log PosInf = PosInf"
| "np_log NegInf = NaN"
| "np_log NaN = NaN"

fun np_neg :: "npfloat \<Rightarrow> npfloat" where
  "np_neg (Finite x) = Finite (- x)"
| "np_neg PosInf = NegInf"
| "np_neg NegInf = PosInf"
| "np_neg NaN = NaN"

fun np_add :: "npfloat \<Rightarrow> npfloat \<Rightarrow> npfloat" where
  "np_add (Finite x) (Finite y) = Finite (x + y)"
| "np_add NaN b = NaN"
| "np_add a NaN = NaN"
| "np_add PosInf NegInf = NaN"
| "np_add NegInf PosInf = NaN"
| "np_add PosInf b = PosInf"
| "np_add NegInf b = NegInf"
| "np_add a PosInf = PosInf"
| "np_add a NegInf = NegInf"

definition np_sub :: "npfloat \<Rightarrow> npfloat \<Rightarrow> npfloat" where
  "np_sub a b = np_add a (np_neg b)"

text \<open>Division of a \<open>float64\<close> by a finite value, the zero divisor read as \<open>+0\<close>.\<close>

fun np_div_by :: "npfloat \<Rightarrow> real \<Rightarrow> npfloat" where
  "np_div_by (Finite x) y = np_divide x y"
| "np_div_by PosInf y = (if y < 0 then NegInf else PosInf)"
| "np_div_by NegInf y = (if y < 0 then PosInf else NegInf)"
| "np_div_by NaN y = NaN"

text \<open>\<open>np.abs(x) ** 2\<close> and \<open>np.sqrt\<close>, as \<open>np.std\<close> uses them.\<close>

fun np_abs_sq :: "npfloat \<Rightarrow> npfloat" where
  "np_abs_sq (Finite x) = Finite (\<bar>x\<bar> ^ 2)"
| "np_abs_sq PosInf = PosInf"
| "np_abs_sq NegInf = PosInf"
| "np_abs_sq NaN = NaN"

fun np_sqrt :: "npfloat \<Rightarrow> npfloat" where
  "np_sqrt (Finite x) = (if x < 0 then NaN else Finite (sqrt x))"
| "np_sqrt PosInf = PosInf"
| "np_sqrt NegInf = NaN"
| "np_sqrt NaN = NaN"

text \<open>
  \<open>x ** y\<close> on \<open>float64\<close>, on the arguments where the result is a finite value: a
  positive base, or a zero base with an exponent that is not negative. Any value to the
  power zero is one, also \<open>0 ** 0\<close>, where \<open>powr\<close> of HOL gives zero. A negative base
  with a fractional exponent gives NaN in NumPy, and a zero base with a negative exponent
  an infinity; this real-valued model does not represent them. The fBm kernel raises grid
  times and an absolute value to the power \<open>2 * alpha\<close>: it stays on those arguments for
  a grid without negative times and \<open>alpha \<ge> 0\<close>, which the theorems on its values
  assume. The Riemann-Liouville integrand leaves them where a base is zero or negative and
  \<open>alpha < 0.5\<close>; the theorems on that builder hold for every quadrature routine and do
  not depend on the values of the integrand.
\<close>

definition np_power :: "real \<Rightarrow> real \<Rightarrow> real" where
  "np_power x y = (if y = 0 then 1 else x powr y)"

section \<open>The random source\<close>

text \<open>
  \<open>np.random.normal\<close> reads NumPy's global generator. The generator is modelled by the
  sequence of values it returns, \<open>g\<close>, and a cursor into it that every draw advances.
  The distribution of the values is not part of the model.
\<close>

type_synonym rng = "nat \<Rightarrow> real"

text \<open>\<open>np.random.normal(0, 1)\<close>\<close>

definition normal :: "rng \<Rightarrow> nat \<Rightarrow> real \<times> nat" where
  "normal g c = (g c, Suc c)"

text \<open>\<open>np.random.normal(0, 1, N)\<close>\<close>

definition normal_vec :: "rng \<Rightarrow> nat \<Rightarrow> nat \<Rightarrow> real list \<times> nat" where
  "normal_vec g c n = (map g [c..<c + n], c + n)"

section \<open>The time grid\<close>

text \<open>
  \<open>np.linspace(start, stop, num)\<close> as NumPy documents it: \<open>num\<close> evenly spaced samples
  with both end points, the last one set to \<open>stop\<close>; a single sample is \<open>start\<close>.
\<close>

definition linspace :: "real \<Rightarrow> real \<Rightarrow> nat \<Rightarrow> real list" where
  "linspace start stop num =
     (if num = 1 then [start]
      else map (\<lambda>i. if i = num - 1 then stop
                     else start + real i * ((stop - start) / real (num - 1))) [0..<num])"

text \<open>\<open>time = np.linspace(10**-5, 10, N)\<close>\<close>

definition time_grid :: "nat \<Rightarrow> real list" where
  "time_grid N = linspace (1 / 10 ^ 5) 10 N"

section \<open>Standard Brownian motion\<close>

text \<open>
  \<^verbatim>\<open>
  for n in range(5):
      W = [0]
      for i in range(1,N):
          W.append(W[i-1] + np.random.normal(0, 1))
  \<close>
  At step \<open>i\<close> the list has \<open>i\<close> entries, so \<open>W[i-1]\<close> is its last one.
\<close>

fun bm_steps :: "rng \<Rightarrow> nat list \<Rightarrow> real list \<times> nat \<Rightarrow> real list \<times> nat" where
  "bm_steps g [] (W, c) = (W, c)"
| "bm_steps g (i # is) (W, c) =
     (let (z, c') = normal g c in bm_steps g is (W @ [W ! (i - 1) + z], c'))"

definition bm_path :: "rng \<Rightarrow> nat \<Rightarrow> nat \<Rightarrow> real list \<times> nat" where
  "bm_path g c N = bm_steps g [1..<N] ([0], c)"

fun bm_paths :: "rng \<Rightarrow> nat \<Rightarrow> nat \<Rightarrow> nat \<Rightarrow> real list list \<times> nat" where
  "bm_paths g c N 0 = ([], c)"
| "bm_paths g c N (Suc k) =
     (let (W, c1) = bm_path g c N; (Ws, c2) = bm_paths g c1 N k in (W # Ws, c2))"

definition bm_cell :: "rng \<Rightarrow> nat \<Rightarrow> nat \<Rightarrow> real list list \<times> nat" where
  "bm_cell g c N = bm_paths g c N 5"

section \<open>Covariance matrices\<close>

text \<open>
  A matrix is the list of its rows. \<open>np.zeros((N, N))\<close>, the read \<open>m[t, s]\<close> and the
  write \<open>m[t, s] = v\<close>. The assembly loops only use indices below \<open>N\<close> on an \<open>N\<close> by
  \<open>N\<close> matrix, so no index is out of range there.
\<close>

definition zeros :: "nat \<Rightarrow> nat \<Rightarrow> 'a::zero list list" where
  "zeros n m = replicate n (replicate m 0)"

definition mat_get :: "'a list list \<Rightarrow> nat \<Rightarrow> nat \<Rightarrow> 'a" where
  "mat_get m t s = m ! t ! s"

definition mat_set :: "'a list list \<Rightarrow> nat \<Rightarrow> nat \<Rightarrow> 'a \<Rightarrow> 'a list list" where
  "mat_set m t s v = m[t := (m ! t)[s := v]]"

text \<open>A matrix is square of size \<open>N\<close> when it has \<open>N\<close> rows of \<open>N\<close> entries.\<close>

definition square :: "nat \<Rightarrow> 'a list list \<Rightarrow> bool" where
  "square N m \<longleftrightarrow> length m = N \<and> (\<forall>i<N. length (m ! i) = N)"

text \<open>
  Both covariance cells run the same two loops and differ in the expression stored, here
  the parameter \<open>entry\<close>:
  \<^verbatim>\<open>
  mat_cov = np.zeros((N, N))
  for t in range(N):
      for s in range(N):
          if (s > t):
              break
          mat_cov[t, s] = <entry t s>
          mat_cov[s,t] = mat_cov[t,s]
  \<close>
\<close>

fun cov_row :: "(nat \<Rightarrow> nat \<Rightarrow> 'a) \<Rightarrow> nat \<Rightarrow> nat list \<Rightarrow> 'a list list \<Rightarrow> 'a list list" where
  "cov_row entry t [] m = m"
| "cov_row entry t (s # ss) m =
     (if s > t then m
      else (let m1 = mat_set m t s (entry t s);
                m2 = mat_set m1 s t (mat_get m1 t s)
            in cov_row entry t ss m2))"

fun cov_rows :: "(nat \<Rightarrow> nat \<Rightarrow> 'a) \<Rightarrow> nat \<Rightarrow> nat list \<Rightarrow> 'a list list \<Rightarrow> 'a list list" where
  "cov_rows entry N [] m = m"
| "cov_rows entry N (t # ts) m = cov_rows entry N ts (cov_row entry t [0..<N] m)"

definition assemble :: "(nat \<Rightarrow> nat \<Rightarrow> 'a::zero) \<Rightarrow> nat \<Rightarrow> 'a list list" where
  "assemble entry N = cov_rows entry N [0..<N] (zeros N N)"

text \<open>
  Fractional Brownian motion:
  \<^verbatim>\<open>
  0.5 * (time[t] ** (2 * alpha) + time[s] ** (2 * alpha) - np.abs(time[t] - time[s]) ** (2 * alpha))
  \<close>
  \<open>N\<close> is the length of \<open>time\<close>, as \<open>np.linspace(10**-5, 10, N)\<close> makes it.
\<close>

definition fbm_entry :: "real list \<Rightarrow> real \<Rightarrow> nat \<Rightarrow> nat \<Rightarrow> real" where
  "fbm_entry time alpha t s =
     0.5 * (np_power (time ! t) (2 * alpha) + np_power (time ! s) (2 * alpha)
            - np_power \<bar>time ! t - time ! s\<bar> (2 * alpha))"

definition fbm_mat_cov :: "real list \<Rightarrow> real \<Rightarrow> real list list" where
  "fbm_mat_cov time alpha = assemble (fbm_entry time alpha) (length time)"

text \<open>
  Riemann-Liouville:
  \<^verbatim>\<open>
  quad(lambda x: (time[t] - x) ** (alpha - 0.5) * (time[s] - x) ** (alpha - 0.5), 0, time[s])[0]
  \<close>
  \<open>scipy.integrate.quad\<close> is a parameter of the model: a function from the integrand and
  the two bounds to the pair of the estimate and its error bound.
\<close>

type_synonym quadrature = "(real \<Rightarrow> real) \<Rightarrow> real \<Rightarrow> real \<Rightarrow> real \<times> real"

definition rl_entry :: "quadrature \<Rightarrow> real list \<Rightarrow> real \<Rightarrow> nat \<Rightarrow> nat \<Rightarrow> real" where
  "rl_entry quad time alpha t s =
     fst (quad (\<lambda>x. np_power (time ! t - x) (alpha - 0.5) * np_power (time ! s - x) (alpha - 0.5))
            0 (time ! s))"

definition rl_mat_cov :: "quadrature \<Rightarrow> real list \<Rightarrow> real \<Rightarrow> real list list" where
  "rl_mat_cov quad time alpha = assemble (rl_entry quad time alpha) (length time)"

section \<open>Sampling through the Cholesky factor\<close>

text \<open>
  \<open>np.linalg.cholesky\<close> is a parameter of the model: it returns the factor or raises
  \<open>LinAlgError\<close>. Whether it fails on a matrix is decided in floating point and is not
  derived here.
\<close>

type_synonym cholesky = "real list list \<Rightarrow> error + real list list"

text \<open>
  \<open>np.dot(C, z)\<close> for a matrix and a vector: one inner product per row, and
  \<open>ValueError\<close> when the shapes do not agree.
\<close>

definition np_dot :: "real list list \<Rightarrow> real list \<Rightarrow> error + real list" where
  "np_dot C z =
     (if list_all (\<lambda>row. length row = length z) C
      then Inr (map (\<lambda>row. sum_list (map2 (*) row z)) C)
      else Inl ValueError)"

text \<open>\<open>Y[0] = 0\<close>, which raises \<open>IndexError\<close> on an empty array.\<close>

definition pin_origin :: "real list \<Rightarrow> error + real list" where
  "pin_origin Y = (if Y = [] then Inl IndexError else Inr (Y[0 := 0]))"

text \<open>
  \<^verbatim>\<open>
  Y = np.dot(C, np.random.normal(0, 1, N))
  Y[0] = 0
  \<close>
\<close>

definition draw_path :: "rng \<Rightarrow> nat \<Rightarrow> real list list \<Rightarrow> nat \<Rightarrow> error + (real list \<times> nat)" where
  "draw_path g c C N =
     (let (z, c') = normal_vec g c N
      in case np_dot C z of
           Inl e \<Rightarrow> Inl e
         | Inr Y \<Rightarrow> (case pin_origin Y of Inl e \<Rightarrow> Inl e | Inr Y' \<Rightarrow> Inr (Y', c')))"

text \<open>\<open>for i in range(5): ...; Y_list.append(Y)\<close>, with the number of draws as \<open>k\<close>.\<close>

fun draw_paths :: "rng \<Rightarrow> nat \<Rightarrow> real list list \<Rightarrow> nat \<Rightarrow> nat \<Rightarrow> error + (real list list \<times> nat)" where
  "draw_paths g c C N 0 = Inr ([], c)"
| "draw_paths g c C N (Suc k) =
     (case draw_path g c C N of
        Inl e \<Rightarrow> Inl e
      | Inr (Y, c1) \<Rightarrow>
          (case draw_paths g c1 C N k of
             Inl e \<Rightarrow> Inl e
           | Inr (Ys, c2) \<Rightarrow> Inr (Y # Ys, c2)))"

text \<open>
  The body of the loop over \<open>alphas\<close> for one \<open>alpha\<close>, from the assembled matrix on.
  Nothing in the cell catches an exception.
\<close>

definition sample_unit :: "cholesky \<Rightarrow> rng \<Rightarrow> nat \<Rightarrow> nat \<Rightarrow> real list list \<Rightarrow> error + (real list list \<times> nat)" where
  "sample_unit chol g c N mat_cov =
     (case chol mat_cov of Inl e \<Rightarrow> Inl e | Inr C \<Rightarrow> draw_paths g c C N 5)"

text \<open>
  \<open>for alpha in alphas: ...; X_frac[alpha] = Y_list\<close>. The result is the dictionary when
  the cell stops and the exception that stopped it, if one did: an exception raised for
  one \<open>alpha\<close> leaves the loop.
\<close>

type_synonym batches = "real \<rightharpoonup> real list list"

fun alpha_loop :: "cholesky \<Rightarrow> rng \<Rightarrow> nat \<Rightarrow> (real \<Rightarrow> real list list) \<Rightarrow> real list \<Rightarrow> batches \<times> nat \<Rightarrow> batches \<times> error option" where
  "alpha_loop chol g N build [] (X, c) = (X, None)"
| "alpha_loop chol g N build (alpha # alphas) (X, c) =
     (case sample_unit chol g c N (build alpha) of
        Inl e \<Rightarrow> (X, Some e)
      | Inr (Y_list, c') \<Rightarrow> alpha_loop chol g N build alphas (X(alpha \<mapsto> Y_list), c'))"

definition fbm_cell :: "cholesky \<Rightarrow> rng \<Rightarrow> nat \<Rightarrow> real list \<Rightarrow> real list \<Rightarrow> batches \<times> error option" where
  "fbm_cell chol g c time alphas =
     alpha_loop chol g (length time) (fbm_mat_cov time) alphas (Map.empty, c)"

definition rl_cell :: "cholesky \<Rightarrow> quadrature \<Rightarrow> rng \<Rightarrow> nat \<Rightarrow> real list \<Rightarrow> real list \<Rightarrow> batches \<times> error option" where
  "rl_cell chol quad g c time alphas =
     alpha_loop chol g (length time) (rl_mat_cov quad time) alphas (Map.empty, c)"

section \<open>The Hurst estimator\<close>

text \<open>
  \<^verbatim>\<open>
  s1 = 0
  s2 = 0
  for i in range(5,len(X)):
      s1 += np.abs(X[i] - 2 * X[i - 2] + X[i - 4]) ** 2
  for i in range(3,len(X)):
      s2 += np.abs(X[i] - 2 * X[i - 1] + X[i - 2]) ** 2
  L.append(np.log(s1 / s2) / (2 * np.log(2)) - alpha)
  \<close>
  The loop indices keep every subscript between \<open>1\<close> and \<open>len(X) - 1\<close>. The sums
  are exact here, where \<open>float64\<close> rounds every term and every partial sum: which paths
  give a sum that is zero is not the same in both, so the outcomes of the division are
  stated on the sums, not on the paths.
\<close>

definition hurst_s1 :: "real list \<Rightarrow> pynum" where
  "hurst_s1 X =
     fold (\<lambda>i s. py_iadd s (\<bar>X ! i - 2 * X ! (i - 2) + X ! (i - 4)\<bar> ^ 2)) [5..<length X] (PyInt 0)"

definition hurst_s2 :: "real list \<Rightarrow> pynum" where
  "hurst_s2 X =
     fold (\<lambda>i s. py_iadd s (\<bar>X ! i - 2 * X ! (i - 1) + X ! (i - 2)\<bar> ^ 2)) [3..<length X] (PyInt 0)"

text \<open>\<open>np.log(s1 / s2) / (2 * np.log(2)) - alpha\<close>\<close>

definition hurst_ratio :: "pynum \<Rightarrow> pynum \<Rightarrow> real \<Rightarrow> error + npfloat" where
  "hurst_ratio s1 s2 alpha =
     (case py_truediv s1 s2 of
        Inl e \<Rightarrow> Inl e
      | Inr q \<Rightarrow> Inr (np_sub (np_div_by (np_log q) (2 * ln 2)) (Finite alpha)))"

definition hurst_offset :: "real list \<Rightarrow> real \<Rightarrow> error + npfloat" where
  "hurst_offset X alpha = hurst_ratio (hurst_s1 X) (hurst_s2 X) alpha"

text \<open>\<open>L = []; for X in X_frac[alpha]: ...; L.append(...)\<close>\<close>

fun hurst_batch :: "real \<Rightarrow> real list list \<Rightarrow> error + npfloat list" where
  "hurst_batch alpha [] = Inr []"
| "hurst_batch alpha (X # Xs) =
     (case hurst_offset X alpha of
        Inl e \<Rightarrow> Inl e
      | Inr v \<Rightarrow> (case hurst_batch alpha Xs of Inl e \<Rightarrow> Inl e | Inr L \<Rightarrow> Inr (v # L)))"

text \<open>
  \<open>np.mean(L)\<close> is the sum over the count, NaN for an empty list; \<open>np.std(L)\<close> is the
  square root of the mean of \<open>abs(x - mean) ** 2\<close>.
\<close>

definition np_sum :: "npfloat list \<Rightarrow> npfloat" where
  "np_sum L = foldl np_add (Finite 0) L"

definition np_mean :: "npfloat list \<Rightarrow> npfloat" where
  "np_mean L = np_div_by (np_sum L) (real (length L))"

definition np_std :: "npfloat list \<Rightarrow> npfloat" where
  "np_std L = np_sqrt (np_mean (map (\<lambda>x. np_abs_sq (np_sub x (np_mean L))) L))"

text \<open>The two numbers the cell prints for one \<open>alpha\<close>.\<close>

definition hurst_report :: "real \<Rightarrow> real list list \<Rightarrow> error + (npfloat \<times> npfloat)" where
  "hurst_report alpha Xs =
     (case hurst_batch alpha Xs of Inl e \<Rightarrow> Inl e | Inr L \<Rightarrow> Inr (np_mean L, np_std L))"

text \<open>
  The sums as the specification writes them, for comparison with the loops above:
  \<open>s1\<close> from \<open>i = 4\<close> and \<open>s2\<close> from \<open>i = 2\<close>, both up to \<open>N - 1\<close>.
\<close>

definition spec_s1 :: "real list \<Rightarrow> real" where
  "spec_s1 X = (\<Sum>i = 4..<length X. \<bar>X ! i - 2 * X ! (i - 2) + X ! (i - 4)\<bar> ^ 2)"

definition spec_s2 :: "real list \<Rightarrow> real" where
  "spec_s2 X = (\<Sum>i = 2..<length X. \<bar>X ! i - 2 * X ! (i - 1) + X ! (i - 2)\<bar> ^ 2)"

definition spec_offset :: "real list \<Rightarrow> real \<Rightarrow> real" where
  "spec_offset X alpha = ln (spec_s1 X / spec_s2 X) / (2 * ln 2) - alpha"

section \<open>Instances of the library parameters\<close>

text \<open>
  Instances of the parameters, for evaluating the cells on small inputs. The first two are
  the Cholesky factorisation of a two by two and of a three by three matrix in exact
  arithmetic, reading the lower triangle as LAPACK does and failing when a pivot is not
  positive. The floating-point routine can decide otherwise on a matrix at the edge of
  positive definiteness; they are used below on matrices where it decides the same. The
  third is the rectangle rule on the right end point, with \<open>0\<close> as its error bound; it
  is exact for the constant integrand that \<open>alpha = 0.5\<close> gives, and only used there and
  where the values do not matter. The last is a sequence of draws.
\<close>

definition chol_2x2 :: cholesky where
  "chol_2x2 m =
     (case m of
        [[a, b], [c, d]] \<Rightarrow>
          if a \<le> 0 then Inl LinAlgError
          else (let l11 = sqrt a; l21 = c / l11; r = d - l21 ^ 2
                in if r \<le> 0 then Inl LinAlgError
                   else Inr [[l11, 0], [l21, sqrt r]])
      | _ \<Rightarrow> Inl LinAlgError)"

definition chol_3x3 :: cholesky where
  "chol_3x3 m =
     (case m of
        [[a11, a12, a13], [a21, a22, a23], [a31, a32, a33]] \<Rightarrow>
          if a11 \<le> 0 then Inl LinAlgError
          else (let l11 = sqrt a11; l21 = a21 / l11; l31 = a31 / l11; r2 = a22 - l21 ^ 2
                in if r2 \<le> 0 then Inl LinAlgError
                   else (let l22 = sqrt r2; l32 = (a32 - l31 * l21) / l22;
                             r3 = a33 - l31 ^ 2 - l32 ^ 2
                         in if r3 \<le> 0 then Inl LinAlgError
                            else Inr [[l11, 0, 0], [l21, l22, 0], [l31, l32, sqrt r3]]))
      | _ \<Rightarrow> Inl LinAlgError)"

definition quad_right :: quadrature where
  "quad_right f a b = ((b - a) * f b, 0)"

definition example_draws :: rng where
  "example_draws n = (if even n then 1 else - 1)"

section \<open>Properties of the Hurst estimator\<close>

lemma fold_py_iadd_float:
  "fold (\<lambda>i s. py_iadd s (f i)) xs (NpFloat a) = NpFloat (a + sum_list (map f xs))"
  by (induction xs arbitrary: a) (simp_all add: add.assoc)

lemma fold_py_iadd_int:
  "fold (\<lambda>i s. py_iadd s (f i)) xs (PyInt 0) =
     (if xs = [] then PyInt 0 else NpFloat (sum_list (map f xs)))"
  by (cases xs) (simp_all add: fold_py_iadd_float)

lemma hurst_s1_eq:
  "hurst_s1 X =
     (if length X \<le> 5 then PyInt 0
      else NpFloat (\<Sum>i = 5..<length X. \<bar>X ! i - 2 * X ! (i - 2) + X ! (i - 4)\<bar> ^ 2))"
  by (simp add: hurst_s1_def fold_py_iadd_int interv_sum_list_conv_sum_set_nat)

lemma hurst_s2_eq:
  "hurst_s2 X =
     (if length X \<le> 3 then PyInt 0
      else NpFloat (\<Sum>i = 3..<length X. \<bar>X ! i - 2 * X ! (i - 1) + X ! (i - 2)\<bar> ^ 2))"
  by (simp add: hurst_s2_def fold_py_iadd_int interv_sum_list_conv_sum_set_nat)

lemma hurst_s1_val:
  "pynum_val (hurst_s1 X) = (\<Sum>i = 5..<length X. \<bar>X ! i - 2 * X ! (i - 2) + X ! (i - 4)\<bar> ^ 2)"
  by (simp add: hurst_s1_eq)

lemma hurst_s2_val:
  "pynum_val (hurst_s2 X) = (\<Sum>i = 3..<length X. \<bar>X ! i - 2 * X ! (i - 1) + X ! (i - 2)\<bar> ^ 2)"
  by (simp add: hurst_s2_eq)

lemma hurst_s1_nonneg: "0 \<le> pynum_val (hurst_s1 X)"
  unfolding hurst_s1_val by (rule sum_nonneg) simp

lemma hurst_s2_nonneg: "0 \<le> pynum_val (hurst_s2 X)"
  unfolding hurst_s2_val by (rule sum_nonneg) simp

lemma hurst_offset_short: "length X \<le> 3 \<Longrightarrow> hurst_offset X alpha = Inl ZeroDivisionError"
  by (simp add: hurst_offset_def hurst_ratio_def hurst_s1_eq hurst_s2_eq)

lemma hurst_offset_from_four:
  assumes "4 \<le> length X"
  shows "hurst_offset X alpha = hurst_ratio (hurst_s1 X) (NpFloat (pynum_val (hurst_s2 X))) alpha"
  using assms by (simp add: hurst_offset_def hurst_s2_eq)

lemma hurst_ratio_neginf:
  assumes "pynum_val s1 = 0" "0 < y"
  shows "hurst_ratio s1 (NpFloat y) alpha = Inr NegInf"
  using assms by (cases s1) (simp_all add: hurst_ratio_def np_divide_def np_sub_def)

lemma hurst_ratio_nan:
  assumes "pynum_val s1 = 0"
  shows "hurst_ratio s1 (NpFloat 0) alpha = Inr NaN"
  using assms by (cases s1) (simp_all add: hurst_ratio_def np_divide_def np_sub_def)

lemma hurst_ratio_posinf:
  assumes "0 < pynum_val s1"
  shows "hurst_ratio s1 (NpFloat 0) alpha = Inr PosInf"
proof -
  have l: "\<not> 2 * ln (2::real) < 0" by simp
  show ?thesis
    using assms l by (cases s1) (simp_all add: hurst_ratio_def np_divide_def np_sub_def)
qed

lemma hurst_offset_finite:
  assumes "0 < pynum_val (hurst_s1 X)" "0 < pynum_val (hurst_s2 X)"
  shows "hurst_offset X alpha =
     Inr (Finite (ln (pynum_val (hurst_s1 X) / pynum_val (hurst_s2 X)) / (2 * ln 2) - alpha))"
proof -
  have l: "5 < length X" using assms(1) by (simp add: hurst_s1_eq split: if_splits)
  then obtain x y where xy: "hurst_s1 X = NpFloat x" "hurst_s2 X = NpFloat y"
    by (simp add: hurst_s1_eq hurst_s2_eq)
  with assms have "0 < x" "0 < y" by simp_all
  then show ?thesis using xy
    by (simp add: hurst_offset_def hurst_ratio_def np_divide_def np_sub_def)
qed

lemma np_add_finite: "is_finite (np_add a b) \<longleftrightarrow> is_finite a \<and> is_finite b"
  by (cases a; cases b) simp_all

lemma foldl_np_add_finite:
  "is_finite (foldl np_add a L) \<longleftrightarrow> is_finite a \<and> list_all is_finite L"
  by (induction L arbitrary: a) (auto simp: np_add_finite)

lemma np_sum_finite: "is_finite (np_sum L) \<longleftrightarrow> list_all is_finite L"
  by (simp add: np_sum_def foldl_np_add_finite)

lemma np_div_by_not_finite: "\<not> is_finite a \<Longrightarrow> \<not> is_finite (np_div_by a y)"
  by (cases a) simp_all

lemma np_mean_not_finite: "\<not> list_all is_finite L \<Longrightarrow> \<not> is_finite (np_mean L)"
  by (simp add: np_mean_def np_div_by_not_finite np_sum_finite)

lemma np_neg_finite: "is_finite (np_neg a) \<longleftrightarrow> is_finite a"
  by (cases a) simp_all

lemma np_sub_not_finite: "\<not> is_finite b \<Longrightarrow> \<not> is_finite (np_sub a b)"
  by (simp add: np_sub_def np_add_finite np_neg_finite)

lemma np_abs_sq_finite: "is_finite (np_abs_sq a) \<longleftrightarrow> is_finite a"
  by (cases a) simp_all

lemma np_sqrt_not_finite: "\<not> is_finite a \<Longrightarrow> \<not> is_finite (np_sqrt a)"
  by (cases a) simp_all

lemma np_std_not_finite:
  assumes "\<not> list_all is_finite L"
  shows "\<not> is_finite (np_std L)"
proof -
  have m: "\<not> is_finite (np_mean L)" using assms by (rule np_mean_not_finite)
  have ne: "L \<noteq> []" using assms by auto
  have "\<not> list_all is_finite (map (\<lambda>x. np_abs_sq (np_sub x (np_mean L))) L)"
    using ne m by (cases L) (simp_all add: np_abs_sq_finite np_sub_not_finite)
  then show ?thesis
    unfolding np_std_def by (intro np_sqrt_not_finite np_mean_not_finite)
qed

lemma hurst_batch_length: "hurst_batch alpha Xs = Inr L \<Longrightarrow> length L = length Xs"
  by (induction Xs arbitrary: L) (auto split: sum.splits)

lemma hurst_batch_nth:
  "hurst_batch alpha Xs = Inr L \<Longrightarrow> k < length Xs \<Longrightarrow> hurst_offset (Xs ! k) alpha = Inr (L ! k)"
proof (induction Xs arbitrary: L k)
  case Nil
  then show ?case by simp
next
  case (Cons X Xs)
  then show ?case by (cases k) (auto split: sum.splits)
qed

lemma hurst_batch_error:
  "X \<in> set Xs \<Longrightarrow> hurst_offset X alpha = Inl e \<Longrightarrow> \<exists>e'. hurst_batch alpha Xs = Inl e'"
  by (induction Xs) (auto split: sum.splits)

text \<open>
  Claim C10. In the estimator as coded, a path of at most five values leaves the loop for
  \<open>s1\<close> without an iteration, so \<open>s1\<close> is still the integer zero, and a path of at most
  three values does the same to \<open>s2\<close>. No test comes before the division: on such a path
  the estimate is the division and logarithm step applied to the zero sums.
\<close>

theorem hurst_short_paths_zero_sums:
  "(length X \<le> 5 \<longrightarrow>
      hurst_s1 X = PyInt 0 \<and> hurst_offset X alpha = hurst_ratio (PyInt 0) (hurst_s2 X) alpha) \<and>
   (length X \<le> 3 \<longrightarrow>
      hurst_s2 X = PyInt 0 \<and> hurst_offset X alpha = hurst_ratio (PyInt 0) (PyInt 0) alpha)"
  by (simp add: hurst_offset_def hurst_s1_eq hurst_s2_eq)

theorem hurst_short_paths_zero_sums_witness:
  "length [0, 1, 3 :: real] \<le> 5 \<and> length [0, 1, 3 :: real] \<le> 3 \<and>
   hurst_s1 [0, 1, 3] = PyInt 0 \<and> hurst_s2 [0, 1, 3] = PyInt 0 \<and>
   hurst_offset [0, 1, 3] (1/2) = hurst_ratio (PyInt 0) (PyInt 0) (1/2)"
  using hurst_short_paths_zero_sums [of "[0, 1, 3]" "1/2"] by simp

text \<open>
  Claim C1 reads the sums from \<open>i = 4\<close> and \<open>i = 2\<close>. The loops start at \<open>5\<close> and
  \<open>3\<close>: on the path below the sums of the code are \<open>1\<close> and \<open>6\<close>, those of the claim
  \<open>5\<close> and \<open>7\<close>, and the estimates differ.
\<close>

theorem hurst_offset_spec_counterexample:
  "5 \<le> length [0, 0, 1, 0, 0, 1 :: real] \<and>
   pynum_val (hurst_s1 [0, 0, 1, 0, 0, 1]) = 1 \<and> spec_s1 [0, 0, 1, 0, 0, 1] = 5 \<and>
   pynum_val (hurst_s2 [0, 0, 1, 0, 0, 1]) = 6 \<and> spec_s2 [0, 0, 1, 0, 0, 1] = 7 \<and>
   hurst_offset [0, 0, 1, 0, 0, 1] (1/2) \<noteq> Inr (Finite (spec_offset [0, 0, 1, 0, 0, 1] (1/2)))"
proof -
  let ?X = "[0, 0, 1, 0, 0, 1 :: real]"
  have s1: "hurst_s1 ?X = NpFloat 1"
    by (simp add: hurst_s1_def upt_conv_Cons)
  have s2: "hurst_s2 ?X = NpFloat 6"
    by (simp add: hurst_s2_def upt_conv_Cons)
  have t1: "spec_s1 ?X = 5"
    by (simp add: spec_s1_def flip: interv_sum_list_conv_sum_set_nat)
  have t2: "spec_s2 ?X = 7"
    by (simp add: spec_s2_def upt_conv_Cons flip: interv_sum_list_conv_sum_set_nat)
  have off: "hurst_offset ?X (1/2) = Inr (Finite (ln (1/6) / (2 * ln 2) - 1/2))"
    by (simp add: hurst_offset_def hurst_ratio_def s1 s2 np_divide_def np_sub_def)
  have "ln (1/6 :: real) \<noteq> ln (5/7)"
    by (subst ln_inj_iff) simp_all
  then have "hurst_offset ?X (1/2) \<noteq> Inr (Finite (spec_offset ?X (1/2)))"
    by (simp add: off spec_offset_def t1 t2 divide_simps del: ln_divide_pos)
  then show ?thesis
    using s1 s2 t1 t2 by simp
qed

text \<open>
  Claim C1, amended. For every path \<open>X\<close> of length \<open>N\<close> and every \<open>alpha\<close> the
  estimator computes \<open>s1\<close> as the sum over \<open>i = 5 .. N - 1\<close> of
  \<open>|X[i] - 2 X[i-2] + X[i-4]|\<^sup>2\<close> and \<open>s2\<close> as the sum over \<open>i = 3 .. N - 1\<close> of
  \<open>|X[i] - 2 X[i-1] + X[i-2]|\<^sup>2\<close>; when both sums are positive, which needs \<open>N \<ge> 6\<close>,
  it returns \<open>log(s1 / s2) / (2 log 2) - alpha\<close>.
\<close>

theorem hurst_offset_as_coded:
  "pynum_val (hurst_s1 X) = (\<Sum>i = 5..<length X. \<bar>X ! i - 2 * X ! (i - 2) + X ! (i - 4)\<bar> ^ 2) \<and>
   pynum_val (hurst_s2 X) = (\<Sum>i = 3..<length X. \<bar>X ! i - 2 * X ! (i - 1) + X ! (i - 2)\<bar> ^ 2) \<and>
   (0 < pynum_val (hurst_s1 X) \<and> 0 < pynum_val (hurst_s2 X) \<longrightarrow>
      6 \<le> length X \<and>
      hurst_offset X alpha =
        Inr (Finite (ln (pynum_val (hurst_s1 X) / pynum_val (hurst_s2 X)) / (2 * ln 2) - alpha)))"
proof (intro conjI impI)
  show "pynum_val (hurst_s1 X) = (\<Sum>i = 5..<length X. \<bar>X ! i - 2 * X ! (i - 2) + X ! (i - 4)\<bar> ^ 2)"
    by (rule hurst_s1_val)
  show "pynum_val (hurst_s2 X) = (\<Sum>i = 3..<length X. \<bar>X ! i - 2 * X ! (i - 1) + X ! (i - 2)\<bar> ^ 2)"
    by (rule hurst_s2_val)
next
  assume pos: "0 < pynum_val (hurst_s1 X) \<and> 0 < pynum_val (hurst_s2 X)"
  then show "6 \<le> length X"
    by (simp add: hurst_s1_eq split: if_splits)
  from pos show "hurst_offset X alpha =
        Inr (Finite (ln (pynum_val (hurst_s1 X) / pynum_val (hurst_s2 X)) / (2 * ln 2) - alpha))"
    by (simp add: hurst_offset_finite)
qed

theorem hurst_offset_as_coded_witness:
  "0 < pynum_val (hurst_s1 [0, 0, 0, 0, 0, 1]) \<and> 0 < pynum_val (hurst_s2 [0, 0, 0, 0, 0, 1]) \<and>
   hurst_offset [0, 0, 0, 0, 0, 1] (3/10) = Inr (Finite (- (3/10)))"
proof -
  let ?X = "[0, 0, 0, 0, 0, 1 :: real]"
  have s1: "hurst_s1 ?X = NpFloat 1"
    by (simp add: hurst_s1_def upt_conv_Cons)
  have s2: "hurst_s2 ?X = NpFloat 1"
    by (simp add: hurst_s2_def upt_conv_Cons)
  show ?thesis
    using hurst_offset_as_coded [of ?X "3/10"] by (simp add: s1 s2)
qed

text \<open>
  Claim C2 asks for an undefined result that the statistics leave out. The estimator has
  none: the path of four values below gives \<open>-inf\<close>, the value is appended to \<open>L\<close> like
  any other, and the mean and the standard deviation of the batch are \<open>-inf\<close> and NaN.
\<close>

theorem hurst_degenerate_counterexample:
  "length [0, 1, 3, 2 :: real] < 5 \<and>
   hurst_batch (1/2) [[0, 1, 3, 2], [0, 0, 0, 0, 0, 1]] = Inr [NegInf, Finite (- 1/2)] \<and>
   hurst_report (1/2) [[0, 1, 3, 2], [0, 0, 0, 0, 0, 1]] = Inr (NegInf, NaN)"
proof -
  have a: "hurst_offset [0, 1, 3, 2] (1/2) = Inr NegInf"
    by (simp add: hurst_offset_def hurst_ratio_def hurst_s1_def hurst_s2_def upt_conv_Cons
        np_divide_def np_sub_def)
  have b: "hurst_offset [0, 0, 0, 0, 0, 1] (1/2) = Inr (Finite (- 1/2))"
    by (simp add: hurst_offset_def hurst_ratio_def hurst_s1_def hurst_s2_def upt_conv_Cons
        np_divide_def np_sub_def)
  show ?thesis
    by (simp add: hurst_report_def a b np_mean_def np_std_def np_sum_def np_sub_def)
qed

text \<open>
  Claim C2, amended. The estimator has no undefined result and the statistics leave
  nothing out. A path of at most three values raises \<open>ZeroDivisionError\<close>. From four
  values on \<open>s2\<close> is a \<open>float64\<close> and the division does not raise; on the sums the
  code has computed, \<open>s1 = 0\<close> with \<open>s2 > 0\<close> gives \<open>-inf\<close>, and \<open>s1\<close> is zero on
  every path of at most five values; \<open>s1 = 0\<close> with \<open>s2 = 0\<close> gives NaN; \<open>s1 > 0\<close>
  with \<open>s2 = 0\<close> gives \<open>+inf\<close>. A batch that raises nothing yields one estimate per
  path, in order, all of them enter the mean and the standard deviation, and one estimate
  that is not finite makes both statistics not finite.
\<close>

theorem hurst_degenerate_as_coded:
  "(length X3 \<le> 3 \<longrightarrow> hurst_offset X3 alpha = Inl ZeroDivisionError) \<and>
   (4 \<le> length X4 \<longrightarrow>
      hurst_offset X4 alpha =
        hurst_ratio (hurst_s1 X4) (NpFloat (pynum_val (hurst_s2 X4))) alpha) \<and>
   (length X5 \<le> 5 \<longrightarrow> pynum_val (hurst_s1 X5) = 0) \<and>
   (pynum_val sz = 0 \<and> 0 < y \<longrightarrow> hurst_ratio sz (NpFloat y) alpha = Inr NegInf) \<and>
   (pynum_val sz = 0 \<longrightarrow> hurst_ratio sz (NpFloat 0) alpha = Inr NaN) \<and>
   (0 < pynum_val sp \<longrightarrow> hurst_ratio sp (NpFloat 0) alpha = Inr PosInf) \<and>
   (hurst_batch alpha Xs = Inr L \<longrightarrow>
      length L = length Xs \<and>
      (\<forall>k<length Xs. hurst_offset (Xs ! k) alpha = Inr (L ! k)) \<and>
      hurst_report alpha Xs = Inr (np_mean L, np_std L) \<and>
      (\<not> list_all is_finite L \<longrightarrow> \<not> is_finite (np_mean L) \<and> \<not> is_finite (np_std L)))"
proof (intro conjI impI allI)
  show "hurst_offset X3 alpha = Inl ZeroDivisionError" if "length X3 \<le> 3"
    using that by (rule hurst_offset_short)
  show "hurst_offset X4 alpha =
          hurst_ratio (hurst_s1 X4) (NpFloat (pynum_val (hurst_s2 X4))) alpha"
    if "4 \<le> length X4"
    using that by (rule hurst_offset_from_four)
  show "pynum_val (hurst_s1 X5) = 0" if "length X5 \<le> 5"
    using that by (simp add: hurst_s1_eq)
  show "hurst_ratio sz (NpFloat y) alpha = Inr NegInf" if "pynum_val sz = 0 \<and> 0 < y"
    using that by (intro hurst_ratio_neginf) simp_all
  show "hurst_ratio sz (NpFloat 0) alpha = Inr NaN" if "pynum_val sz = 0"
    using that by (rule hurst_ratio_nan)
  show "hurst_ratio sp (NpFloat 0) alpha = Inr PosInf" if "0 < pynum_val sp"
    using that by (rule hurst_ratio_posinf)
next
  assume b: "hurst_batch alpha Xs = Inr L"
  show "length L = length Xs"
    using b by (rule hurst_batch_length)
  show "hurst_offset (Xs ! k) alpha = Inr (L ! k)" if "k < length Xs" for k
    using b that by (rule hurst_batch_nth)
  show "hurst_report alpha Xs = Inr (np_mean L, np_std L)"
    by (simp add: hurst_report_def b)
  show "\<not> is_finite (np_mean L)" if "\<not> list_all is_finite L"
    using that by (rule np_mean_not_finite)
  show "\<not> is_finite (np_std L)" if "\<not> list_all is_finite L"
    using that by (rule np_std_not_finite)
qed

theorem hurst_degenerate_as_coded_witness:
  "length [0, 1, 3 :: real] \<le> 3 \<and> hurst_offset [0, 1, 3] (1/2) = Inl ZeroDivisionError \<and>
   4 \<le> length [0, 1, 3, 2 :: real] \<and> length [0, 1, 3, 2 :: real] \<le> 5 \<and>
   hurst_s1 [0, 1, 3, 2] = PyInt 0 \<and> hurst_s2 [0, 1, 3, 2] = NpFloat 9 \<and>
   hurst_offset [0, 1, 3, 2] (1/2) = hurst_ratio (PyInt 0) (NpFloat 9) (1/2) \<and>
   pynum_val (PyInt 0) = 0 \<and> (0::real) < 9 \<and>
   hurst_ratio (PyInt 0) (NpFloat 9) (1/2) = Inr NegInf \<and>
   hurst_ratio (PyInt 0) (NpFloat 0) (1/2) = Inr NaN \<and>
   0 < pynum_val (NpFloat 4) \<and> hurst_ratio (NpFloat 4) (NpFloat 0) (1/2) = Inr PosInf \<and>
   hurst_batch (1/2) [[0, 1, 3, 2]] = Inr [NegInf] \<and>
   \<not> list_all is_finite [NegInf] \<and>
   \<not> is_finite (np_mean [NegInf]) \<and> \<not> is_finite (np_std [NegInf])"
proof -
  note T = hurst_degenerate_as_coded [of "[0, 1, 3]" "1/2" "[0, 1, 3, 2]" "[0, 1, 3, 2]"
        "PyInt 0" 9 "NpFloat 4" "[[0, 1, 3, 2]]" "[NegInf]"]
  have a: "hurst_s2 [0, 1, 3, 2] = NpFloat 9"
    by (simp add: hurst_s2_def upt_conv_Cons)
  have b: "hurst_s1 [0, 1, 3, 2] = PyInt 0"
    by (simp add: hurst_s1_def)
  have t1: "hurst_offset [0, 1, 3] (1/2) = Inl ZeroDivisionError"
    using T [THEN conjunct1] by simp
  have t2: "hurst_offset [0, 1, 3, 2] (1/2) = hurst_ratio (PyInt 0) (NpFloat 9) (1/2)"
    using T [THEN conjunct2, THEN conjunct1] by (simp add: a b)
  have t3: "hurst_ratio (PyInt 0) (NpFloat 9) (1/2) = Inr NegInf"
    using T [THEN conjunct2, THEN conjunct2, THEN conjunct2, THEN conjunct1] by simp
  have t4: "hurst_ratio (PyInt 0) (NpFloat 0) (1/2) = Inr NaN"
    using T [THEN conjunct2, THEN conjunct2, THEN conjunct2, THEN conjunct2, THEN conjunct1]
    by simp
  have t5: "hurst_ratio (NpFloat 4) (NpFloat 0) (1/2) = Inr PosInf"
    using T [THEN conjunct2, THEN conjunct2, THEN conjunct2, THEN conjunct2, THEN conjunct2,
        THEN conjunct1]
    by simp
  have d: "hurst_batch (1/2) [[0, 1, 3, 2]] = Inr [NegInf]"
    by (simp add: t2 t3)
  have n: "\<not> list_all is_finite [NegInf]"
    by simp
  have t6: "\<not> is_finite (np_mean [NegInf]) \<and> \<not> is_finite (np_std [NegInf])"
    using T [THEN conjunct2, THEN conjunct2, THEN conjunct2, THEN conjunct2, THEN conjunct2,
        THEN conjunct2, rule_format, OF d] n
    by blast
  show ?thesis
    using t1 t2 t3 t4 t5 t6 d a b by simp
qed

section \<open>Properties of the covariance matrices\<close>

text \<open>
  The two loops keep the matrix square, and the entry they leave at \<open>[i, j]\<close> is the one
  computed for the larger index as row and the smaller as column.
\<close>

lemma square_zeros: "square N (zeros N N)"
  by (simp add: square_def zeros_def)

lemma square_mat_set:
  assumes "square N m"
  shows "square N (mat_set m t s v)"
proof -
  have "length (m[t := (m ! t)[s := v]] ! i) = N" if "i < N" for i
  proof (cases "i = t")
    case True
    then show ?thesis using assms that by (simp add: square_def)
  next
    case False
    then show ?thesis using assms that by (simp add: square_def)
  qed
  then show ?thesis using assms by (simp add: square_def mat_set_def)
qed

lemma nth_mat_set:
  assumes "square N m" "t < N" "s < N" "i < N" "j < N"
  shows "mat_set m t s v ! i ! j = (if i = t \<and> j = s then v else m ! i ! j)"
  using assms by (auto simp: square_def mat_set_def nth_list_update)

lemma cov_row_step:
  fixes entry :: "nat \<Rightarrow> nat \<Rightarrow> 'a"
  assumes "square N m" "t < N" "s \<le> t"
  defines "m2 \<equiv> mat_set (mat_set m t s (entry t s)) s t (mat_get (mat_set m t s (entry t s)) t s)"
  shows "square N m2"
    and "\<And>i j. i < N \<Longrightarrow> j < N \<Longrightarrow>
           m2 ! i ! j = (if (i = t \<and> j = s) \<or> (i = s \<and> j = t) then entry t s else m ! i ! j)"
proof -
  let ?m1 = "mat_set m t s (entry t s)"
  have s: "s < N" using assms by simp
  have sq1: "square N ?m1" using assms(1) by (rule square_mat_set)
  then show "square N m2" unfolding m2_def by (rule square_mat_set)
  have g: "mat_get ?m1 t s = entry t s"
    using assms(1,2) s by (simp add: mat_get_def nth_mat_set)
  show "m2 ! i ! j = (if (i = t \<and> j = s) \<or> (i = s \<and> j = t) then entry t s else m ! i ! j)"
    if ij: "i < N" "j < N" for i j
  proof -
    have a: "m2 ! i ! j = (if i = s \<and> j = t then entry t s else ?m1 ! i ! j)"
      unfolding m2_def g by (rule nth_mat_set [OF sq1 s assms(2) ij])
    have b: "?m1 ! i ! j = (if i = t \<and> j = s then entry t s else m ! i ! j)"
      by (rule nth_mat_set [OF assms(1,2) s ij])
    have c: "(if P then e else if Q then e else x) = (if Q \<or> P then e else x)"
      for P Q and e x :: 'a
      by simp
    show ?thesis
      unfolding a b by (rule c)
  qed
qed

lemma cov_row_upt:
  assumes "square N m" "t < N"
  shows "square N (cov_row entry t [a..<N] m) \<and>
         (\<forall>i<N. \<forall>j<N. cov_row entry t [a..<N] m ! i ! j =
            (if i = t \<and> a \<le> j \<and> j \<le> t then entry t j
             else if j = t \<and> a \<le> i \<and> i \<le> t then entry t i
             else m ! i ! j))"
  using assms
proof (induction "N - a" arbitrary: a m)
  case 0
  then show ?case by auto
next
  case (Suc d)
  then have aN: "a < N" by simp
  then have u: "[a..<N] = a # [Suc a..<N]" by (rule upt_conv_Cons)
  show ?case
  proof (cases "t < a")
    case True
    then show ?thesis using Suc.prems u by auto
  next
    case False
    then have at: "a \<le> t" by simp
    define m2 where "m2 = mat_set (mat_set m t a (entry t a)) a t
                            (mat_get (mat_set m t a (entry t a)) t a)"
    have sq2: "square N m2"
      unfolding m2_def using Suc.prems at by (intro cov_row_step(1)) simp_all
    have e2: "m2 ! i ! j = (if (i = t \<and> j = a) \<or> (i = a \<and> j = t) then entry t a else m ! i ! j)"
      if "i < N" "j < N" for i j
      unfolding m2_def using Suc.prems at that by (intro cov_row_step(2)) simp_all
    have r: "cov_row entry t [a..<N] m = cov_row entry t [Suc a..<N] m2"
      using at by (simp add: u m2_def Let_def)
    have d: "d = N - Suc a" using Suc.hyps(2) by simp
    note IH = Suc.hyps(1) [OF d sq2 Suc.prems(2)]
    show ?thesis
    proof (intro conjI allI impI)
      show "square N (cov_row entry t [a..<N] m)"
        unfolding r using IH by simp
      fix i j assume ij: "i < N" "j < N"
      have "cov_row entry t [a..<N] m ! i ! j =
            (if i = t \<and> Suc a \<le> j \<and> j \<le> t then entry t j
             else if j = t \<and> Suc a \<le> i \<and> i \<le> t then entry t i
             else m2 ! i ! j)"
        unfolding r using IH ij by simp
      also have "\<dots> = (if i = t \<and> a \<le> j \<and> j \<le> t then entry t j
             else if j = t \<and> a \<le> i \<and> i \<le> t then entry t i
             else m ! i ! j)"
        unfolding e2 [OF ij] using at by (auto simp: Suc_le_eq le_less)
      finally show "cov_row entry t [a..<N] m ! i ! j =
            (if i = t \<and> a \<le> j \<and> j \<le> t then entry t j
             else if j = t \<and> a \<le> i \<and> i \<le> t then entry t i
             else m ! i ! j)" .
    qed
  qed
qed

lemma cov_rows_upt:
  assumes "square N m"
  shows "square N (cov_rows entry N [b..<N] m) \<and>
         (\<forall>i<N. \<forall>j<N. cov_rows entry N [b..<N] m ! i ! j =
            (if b \<le> max i j then entry (max i j) (min i j) else m ! i ! j))"
  using assms
proof (induction "N - b" arbitrary: b m)
  case 0
  then show ?case by auto
next
  case (Suc d)
  then have bN: "b < N" by simp
  then have u: "[b..<N] = b # [Suc b..<N]" by (rule upt_conv_Cons)
  define m' where "m' = cov_row entry b [0..<N] m"
  note R = cov_row_upt [OF Suc.prems bN, of entry 0, folded m'_def]
  have sq: "square N m'" using R by simp
  have e: "m' ! i ! j = (if i = b \<and> j \<le> b then entry b j
             else if j = b \<and> i \<le> b then entry b i else m ! i ! j)"
    if "i < N" "j < N" for i j
    using R that by simp
  have r: "cov_rows entry N [b..<N] m = cov_rows entry N [Suc b..<N] m'"
    by (simp add: u m'_def)
  have d: "d = N - Suc b" using Suc.hyps(2) by simp
  note IH = Suc.hyps(1) [OF d sq]
  show ?case
  proof (intro conjI allI impI)
    show "square N (cov_rows entry N [b..<N] m)"
      unfolding r using IH by simp
    fix i j assume ij: "i < N" "j < N"
    have "cov_rows entry N [b..<N] m ! i ! j =
            (if Suc b \<le> max i j then entry (max i j) (min i j) else m' ! i ! j)"
      unfolding r using IH ij by simp
    also have "\<dots> = (if b \<le> max i j then entry (max i j) (min i j) else m ! i ! j)"
      unfolding e [OF ij] by (auto simp: max_def min_def)
    finally show "cov_rows entry N [b..<N] m ! i ! j =
            (if b \<le> max i j then entry (max i j) (min i j) else m ! i ! j)" .
  qed
qed

lemma assemble_nth:
  assumes "i < N" "j < N"
  shows "assemble entry N ! i ! j = entry (max i j) (min i j)"
  using cov_rows_upt [OF square_zeros, of N entry 0] assms by (simp add: assemble_def)

lemma assemble_square: "square N (assemble entry N)"
  using cov_rows_upt [OF square_zeros, of N entry 0] by (simp add: assemble_def)

lemma assemble_symmetric:
  assumes "i < N" "j < N"
  shows "assemble entry N ! i ! j = assemble entry N ! j ! i"
  using assms by (simp add: assemble_nth max.commute min.commute)

lemma length_linspace: "length (linspace start stop num) = num"
  by (simp add: linspace_def)

lemma linspace_pos:
  assumes "0 < start" "start \<le> stop" "t \<in> set (linspace start stop num)"
  shows "0 < t"
proof (cases "num = 1")
  case True
  then show ?thesis using assms by (simp add: linspace_def)
next
  case False
  then obtain i where "i < num"
    and t: "t = (if i = num - 1 then stop else start + real i * ((stop - start) / real (num - 1)))"
    using assms(3) by (auto simp: linspace_def)
  have "0 \<le> real i * ((stop - start) / real (num - 1))"
    using assms(2) by simp
  then show ?thesis using assms(1,2) t by (simp add: add_pos_nonneg)
qed

lemma length_time_grid: "length (time_grid N) = N"
  by (simp add: time_grid_def length_linspace)

lemma time_grid_pos: "t \<in> set (time_grid N) \<Longrightarrow> 0 < t"
  unfolding time_grid_def by (rule linspace_pos [of "1 / 10 ^ 5" 10]) simp_all

lemma time_grid_2: "time_grid 2 = [1 / 100000, 10]"
  by (simp add: time_grid_def linspace_def upt_conv_Cons)

lemma fbm_entry_commute: "fbm_entry time alpha t s = fbm_entry time alpha s t"
  by (simp add: fbm_entry_def abs_minus_commute add.commute)

lemma fbm_mat_cov_nth:
  assumes "i < length time" "j < length time"
  shows "fbm_mat_cov time alpha ! i ! j = fbm_entry time alpha i j"
proof (cases "j \<le> i")
  case True
  then show ?thesis using assms by (simp add: fbm_mat_cov_def assemble_nth max_def min_def)
next
  case False
  then have "fbm_mat_cov time alpha ! i ! j = fbm_entry time alpha j i"
    using assms by (simp add: fbm_mat_cov_def assemble_nth max_def min_def)
  then show ?thesis by (simp add: fbm_entry_commute)
qed

text \<open>
  Claim C4. For every grid of positive times and every \<open>alpha\<close> in \<open>(0, 1)\<close>, every entry
  \<open>C[i, j]\<close> of the fBm covariance matrix is
  \<open>0.5 (t\<^sub>i\<^bsup>2 alpha\<^esup> + t\<^sub>j\<^bsup>2 alpha\<^esup> - |t\<^sub>i - t\<^sub>j|\<^bsup>2 alpha\<^esup>)\<close>, with \<open>t\<^sub>i\<close> and \<open>t\<^sub>j\<close> the grid times
  at positions \<open>i\<close> and \<open>j\<close>.
\<close>

theorem fbm_mat_cov_kernel:
  assumes "0 < alpha" "alpha < 1" "\<forall>t\<in>set time. 0 < t" "i < length time" "j < length time"
  shows "fbm_mat_cov time alpha ! i ! j =
           0.5 * ((time ! i) powr (2 * alpha) + (time ! j) powr (2 * alpha)
                  - \<bar>time ! i - time ! j\<bar> powr (2 * alpha))"
  using assms by (simp add: fbm_mat_cov_nth fbm_entry_def np_power_def)

theorem fbm_mat_cov_kernel_witness:
  "(0::real) < 3 / 10 \<and> (3 / 10 :: real) < 1 \<and> list_all (\<lambda>t. 0 < t) (time_grid 2) \<and>
   1 < length (time_grid 2) \<and> 0 < length (time_grid 2) \<and>
   fbm_mat_cov (time_grid 2) (3 / 10) ! 1 ! 0 =
     0.5 * ((time_grid 2 ! 1) powr (2 * (3 / 10)) + (time_grid 2 ! 0) powr (2 * (3 / 10))
            - \<bar>time_grid 2 ! 1 - time_grid 2 ! 0\<bar> powr (2 * (3 / 10)))"
proof -
  have p: "\<forall>t\<in>set (time_grid 2). 0 < t"
    by (simp add: time_grid_pos)
  have l: "1 < length (time_grid 2)" "0 < length (time_grid 2)"
    by (simp_all add: length_time_grid)
  have "fbm_mat_cov (time_grid 2) (3 / 10) ! 1 ! 0 =
     0.5 * ((time_grid 2 ! 1) powr (2 * (3 / 10)) + (time_grid 2 ! 0) powr (2 * (3 / 10))
            - \<bar>time_grid 2 ! 1 - time_grid 2 ! 0\<bar> powr (2 * (3 / 10)))"
    by (rule fbm_mat_cov_kernel [OF _ _ p l]) simp_all
  then show ?thesis using p l by (simp add: list_all_iff)
qed

text \<open>
  Claim C5. The matrix of either builder is symmetric, entry for entry: \<open>C[i][j]\<close> and
  \<open>C[j][i]\<close> hold the one value computed at row \<open>max i j\<close> and column \<open>min i j\<close>,
  whatever the kernel and the quadrature routine return. Every diagonal entry of the fBm
  matrix is non-negative, on a grid without negative times and for \<open>alpha \<ge> 0\<close>.
\<close>

theorem mat_cov_symmetric:
  assumes "i < length time" "j < length time"
  shows "fbm_mat_cov time alpha ! i ! j = fbm_entry time alpha (max i j) (min i j) \<and>
         rl_mat_cov quad time alpha ! i ! j = rl_entry quad time alpha (max i j) (min i j) \<and>
         fbm_mat_cov time alpha ! i ! j = fbm_mat_cov time alpha ! j ! i \<and>
         rl_mat_cov quad time alpha ! i ! j = rl_mat_cov quad time alpha ! j ! i \<and>
         (0 \<le> alpha \<and> (\<forall>t\<in>set time. 0 \<le> t) \<longrightarrow> 0 \<le> fbm_mat_cov time alpha ! i ! i)"
proof (intro conjI impI)
  show "fbm_mat_cov time alpha ! i ! j = fbm_entry time alpha (max i j) (min i j)"
    unfolding fbm_mat_cov_def using assms by (rule assemble_nth)
  show "rl_mat_cov quad time alpha ! i ! j = rl_entry quad time alpha (max i j) (min i j)"
    unfolding rl_mat_cov_def using assms by (rule assemble_nth)
  show "fbm_mat_cov time alpha ! i ! j = fbm_mat_cov time alpha ! j ! i"
    unfolding fbm_mat_cov_def using assms by (rule assemble_symmetric)
  show "rl_mat_cov quad time alpha ! i ! j = rl_mat_cov quad time alpha ! j ! i"
    unfolding rl_mat_cov_def using assms by (rule assemble_symmetric)
  have "fbm_mat_cov time alpha ! i ! i =
          0.5 * (2 * np_power (time ! i) (2 * alpha) - np_power 0 (2 * alpha))"
    using assms(1) by (simp add: fbm_mat_cov_nth fbm_entry_def)
  also have "0 \<le> \<dots>"
    by (simp add: np_power_def)
  finally show "0 \<le> fbm_mat_cov time alpha ! i ! i" .
qed

theorem mat_cov_symmetric_witness:
  "0 < length (time_grid 2) \<and> 1 < length (time_grid 2) \<and> (0::real) \<le> 3 / 10 \<and>
   list_all (\<lambda>t. 0 \<le> t) (time_grid 2) \<and>
   fbm_mat_cov (time_grid 2) (3 / 10) ! 0 ! 1 = fbm_mat_cov (time_grid 2) (3 / 10) ! 1 ! 0 \<and>
   rl_mat_cov quad_right (time_grid 2) (3 / 10) ! 0 ! 1 =
     rl_mat_cov quad_right (time_grid 2) (3 / 10) ! 1 ! 0 \<and>
   0 \<le> fbm_mat_cov (time_grid 2) (3 / 10) ! 0 ! 0"
proof -
  have p: "\<forall>t\<in>set (time_grid 2). 0 \<le> t"
    using time_grid_pos [of _ 2] by (auto intro: less_imp_le)
  have l: "0 < length (time_grid 2)" "1 < length (time_grid 2)"
    by (simp_all add: length_time_grid)
  note T = mat_cov_symmetric [OF l, of "3 / 10" quad_right]
  have d: "0 \<le> fbm_mat_cov (time_grid 2) (3 / 10) ! 0 ! 0"
    using T p by simp
  show ?thesis
    using T [THEN conjunct2, THEN conjunct2, THEN conjunct1]
      T [THEN conjunct2, THEN conjunct2, THEN conjunct2, THEN conjunct1] d p l
    by (simp add: list_all_iff)
qed

text \<open>
  Claim C6. With \<open>alpha = 0.5\<close> every entry of the fBm covariance matrix is
  \<open>0.5 (t\<^sub>i + t\<^sub>j - |t\<^sub>i - t\<^sub>j|)\<close>, which is \<open>min t\<^sub>i t\<^sub>j\<close>, for all non-negative grid
  times.
\<close>

theorem fbm_mat_cov_half_is_min:
  assumes "\<forall>t\<in>set time. 0 \<le> t" "i < length time" "j < length time"
  shows "fbm_mat_cov time (1 / 2) ! i ! j = 0.5 * (time ! i + time ! j - \<bar>time ! i - time ! j\<bar>) \<and>
         0.5 * (time ! i + time ! j - \<bar>time ! i - time ! j\<bar>) = min (time ! i) (time ! j)"
proof -
  have "0 \<le> time ! i" "0 \<le> time ! j"
    using assms by simp_all
  then show ?thesis
    using assms(2,3) by (simp add: fbm_mat_cov_nth fbm_entry_def np_power_def min_def)
qed

theorem fbm_mat_cov_half_is_min_witness:
  "list_all (\<lambda>t. 0 \<le> t) (time_grid 2) \<and> 0 < length (time_grid 2) \<and>
   1 < length (time_grid 2) \<and> fbm_mat_cov (time_grid 2) (1 / 2) ! 0 ! 1 = 1 / 100000"
proof -
  have p: "\<forall>t\<in>set (time_grid 2). 0 \<le> t"
    using time_grid_pos [of _ 2] by (auto intro: less_imp_le)
  have l: "0 < length (time_grid 2)" "1 < length (time_grid 2)"
    by (simp_all add: length_time_grid)
  have "fbm_mat_cov (time_grid 2) (1 / 2) ! 0 ! 1 = min (time_grid 2 ! 0) (time_grid 2 ! 1)"
    using fbm_mat_cov_half_is_min [OF p l] by simp
  then show ?thesis using p l by (simp add: time_grid_2 list_all_iff)
qed

section \<open>Properties of the sampled paths\<close>

lemma bm_steps_upt:
  assumes "length W = a" "1 \<le> a"
  shows "\<exists>W'. bm_steps g [a..<N] (W, c) = (W', c + (N - a)) \<and> length W' = max a N \<and>
           take a W' = W \<and>
           (\<forall>i. a \<le> i \<and> i < N \<longrightarrow> W' ! i = W' ! (i - 1) + g (c + (i - a)))"
  using assms
proof (induction "N - a" arbitrary: a W c)
  case 0
  then show ?case by simp
next
  case (Suc d)
  then have aN: "a < N" by simp
  then have u: "[a..<N] = a # [Suc a..<N]" by (rule upt_conv_Cons)
  let ?W1 = "W @ [W ! (a - 1) + g c]"
  have d: "d = N - Suc a" using Suc.hyps(2) by simp
  have l1: "length ?W1 = Suc a" using Suc.prems by simp
  obtain W' where W': "bm_steps g [Suc a..<N] (?W1, Suc c) = (W', Suc c + (N - Suc a))"
      "length W' = max (Suc a) N" "take (Suc a) W' = ?W1"
      "\<forall>i. Suc a \<le> i \<and> i < N \<longrightarrow> W' ! i = W' ! (i - 1) + g (Suc c + (i - Suc a))"
    using Suc.hyps(1) [OF d l1, of "Suc c"] by auto
  have r: "bm_steps g [a..<N] (W, c) = (W', c + (N - a))"
    using W'(1) aN by (simp add: u normal_def)
  have n: "W' ! k = ?W1 ! k" if "k < Suc a" for k
    using W'(3) that by (metis nth_take)
  have t: "take a W' = W"
  proof -
    have "take a W' = take a (take (Suc a) W')" by (simp add: min_def)
    also have "\<dots> = W" unfolding W'(3) using Suc.prems by simp
    finally show ?thesis .
  qed
  have s: "W' ! i = W' ! (i - 1) + g (c + (i - a))" if i: "a \<le> i" "i < N" for i
  proof (cases "i = a")
    case True
    have "W' ! a = W ! (a - 1) + g c"
      using n [of a] Suc.prems by (simp add: nth_append)
    moreover have "W' ! (a - 1) = W ! (a - 1)"
      using n [of "a - 1"] Suc.prems by (simp add: nth_append)
    ultimately show ?thesis using True by simp
  next
    case False
    then have "Suc a \<le> i" using i by simp
    then have "W' ! i = W' ! (i - 1) + g (Suc c + (i - Suc a))"
      using W'(4) i by simp
    moreover have "Suc c + (i - Suc a) = c + (i - a)"
      using \<open>Suc a \<le> i\<close> by simp
    ultimately show ?thesis by (simp only:)
  qed
  show ?case
    using r W'(2) aN t s by (intro exI [of _ W']) (simp add: max_def)
qed

lemma bm_path_recursion:
  assumes "bm_path g c N = (W, c')"
  shows "length W = max 1 N" and "W ! 0 = 0" and "c' = c + (N - 1)"
    and "\<And>i. 1 \<le> i \<Longrightarrow> i < N \<Longrightarrow> W ! i = W ! (i - 1) + g (c + (i - 1))"
proof -
  obtain W' where W': "bm_steps g [1..<N] ([0], c) = (W', c + (N - 1))" "length W' = max 1 N"
      "take 1 W' = [0]" "\<forall>i. 1 \<le> i \<and> i < N \<longrightarrow> W' ! i = W' ! (i - 1) + g (c + (i - 1))"
    using bm_steps_upt [of "[0]" 1 g N c] by auto
  have e: "W = W'" "c' = c + (N - 1)"
    using assms W'(1) by (simp_all add: bm_path_def)
  show "length W = max 1 N" using e W'(2) by simp
  show "c' = c + (N - 1)" by (rule e)
  have "W' ! 0 = [0] ! 0" using W'(3) by (metis nth_take zero_less_one)
  then show "W ! 0 = 0" using e by simp
  show "W ! i = W ! (i - 1) + g (c + (i - 1))" if "1 \<le> i" "i < N" for i
    using that W'(4) e by simp
qed

lemma bm_paths_origin: "W \<in> set (fst (bm_paths g c N k)) \<Longrightarrow> W ! 0 = 0"
proof (induction k arbitrary: c)
  case 0
  then show ?case by simp
next
  case (Suc k)
  obtain W1 c1 where p: "bm_path g c N = (W1, c1)" by (cases "bm_path g c N")
  obtain Ws c2 where q: "bm_paths g c1 N k = (Ws, c2)" by (cases "bm_paths g c1 N k")
  from Suc.prems p q have "W = W1 \<or> W \<in> set (fst (bm_paths g c1 N k))" by auto
  then show ?case
    using bm_path_recursion(2) [OF p] Suc.IH by auto
qed

lemma np_dot_nth:
  assumes "np_dot C z = Inr Y"
  shows "length Y = length C"
    and "\<And>i. i < length C \<Longrightarrow> length (C ! i) = length z"
    and "\<And>i. i < length C \<Longrightarrow> Y ! i = (\<Sum>k<length z. C ! i ! k * z ! k)"
proof -
  have a: "list_all (\<lambda>row. length row = length z) C"
    and Y: "Y = map (\<lambda>row. sum_list (map2 (*) row z)) C"
    using assms by (auto simp: np_dot_def split: if_splits)
  show "length Y = length C" by (simp add: Y)
  show l: "length (C ! i) = length z" if "i < length C" for i
    using a that by (simp add: list_all_length)
  show "Y ! i = (\<Sum>k<length z. C ! i ! k * z ! k)" if i: "i < length C" for i
  proof -
    have "sum_list (map2 (*) (C ! i) z) = (\<Sum>k = 0..<length z. map2 (*) (C ! i) z ! k)"
      using l [OF i] by (simp add: sum_list_sum_nth)
    also have "\<dots> = (\<Sum>k = 0..<length z. C ! i ! k * z ! k)"
      using l [OF i] by (intro sum.cong) simp_all
    finally show ?thesis using i by (simp add: Y atLeast0LessThan)
  qed
qed

lemma pin_origin_nth:
  assumes "pin_origin Y = Inr Y'"
  shows "Y \<noteq> []" and "length Y' = length Y" and "Y' ! 0 = 0"
    and "\<And>i. 1 \<le> i \<Longrightarrow> Y' ! i = Y ! i"
  using assms by (auto simp: pin_origin_def split: if_splits)

lemma draw_path_origin:
  assumes "draw_path g c C N = Inr (Y, c')"
  shows "Y \<noteq> [] \<and> Y ! 0 = 0"
proof -
  obtain Y0 where "pin_origin Y0 = Inr Y"
    using assms by (auto simp: draw_path_def normal_vec_def split: sum.splits)
  then show ?thesis using pin_origin_nth [of Y0 Y] by auto
qed

lemma draw_paths_origin:
  "draw_paths g c C N k = Inr (Ys, c') \<Longrightarrow> Y \<in> set Ys \<Longrightarrow> Y \<noteq> [] \<and> Y ! 0 = 0"
proof (induction k arbitrary: c Ys)
  case 0
  then show ?case by simp
next
  case (Suc k)
  then obtain Y1 c1 Ys1 where a: "draw_path g c C N = Inr (Y1, c1)"
      and b: "draw_paths g c1 C N k = Inr (Ys1, c')" and c: "Ys = Y1 # Ys1"
    by (auto split: sum.splits)
  from Suc.prems(2) c have "Y = Y1 \<or> Y \<in> set Ys1" by simp
  then show ?case
    using draw_path_origin [OF a] Suc.IH [OF b] by auto
qed

lemma sample_unit_origin:
  "sample_unit chol g c N m = Inr (Ys, c') \<Longrightarrow> Y \<in> set Ys \<Longrightarrow> Y \<noteq> [] \<and> Y ! 0 = 0"
  by (auto simp: sample_unit_def split: sum.splits dest: draw_paths_origin)

lemma alpha_loop_origin:
  assumes "\<forall>a Ys. X a = Some Ys \<longrightarrow> (\<forall>Y\<in>set Ys. Y \<noteq> [] \<and> Y ! 0 = 0)"
    and "fst (alpha_loop chol g N build alphas (X, c)) a = Some Ys" and "Y \<in> set Ys"
  shows "Y \<noteq> [] \<and> Y ! 0 = 0"
  using assms
proof (induction alphas arbitrary: X c)
  case Nil
  then show ?case by auto
next
  case (Cons b alphas)
  show ?case
  proof (cases "sample_unit chol g c N (build b)")
    case (Inl e)
    then show ?thesis using Cons.prems by auto
  next
    case (Inr p)
    obtain Zs c1 where p: "p = (Zs, c1)" by (cases p)
    have inv: "\<forall>a Ys. (X(b \<mapsto> Zs)) a = Some Ys \<longrightarrow> (\<forall>Y\<in>set Ys. Y \<noteq> [] \<and> Y ! 0 = 0)"
      using Cons.prems(1) sample_unit_origin [OF Inr [unfolded p]] by auto
    have "fst (alpha_loop chol g N build alphas (X(b \<mapsto> Zs), c1)) a = Some Ys"
      using Cons.prems(2) Inr p by simp
    then show ?thesis
      using Cons.IH [OF inv _ Cons.prems(3)] by blast
  qed
qed

lemma assemble_2:
  "assemble entry (Suc (Suc 0)) = [[entry 0 0, entry 1 0], [entry 1 0, entry 1 1]]"
  by (simp add: assemble_def zeros_def mat_set_def mat_get_def upt_conv_Cons)

lemma fbm_half: "fbm_mat_cov (time_grid 2) (1 / 2) = [[1 / 100000, 1 / 100000], [1 / 100000, 10]]"
  by (simp add: fbm_mat_cov_def time_grid_2 assemble_2 fbm_entry_def np_power_def)

lemma rl_half: "rl_mat_cov quad_right (time_grid 2) (1 / 2) = [[1 / 100000, 1 / 100000], [1 / 100000, 10]]"
  by (simp add: rl_mat_cov_def time_grid_2 assemble_2 rl_entry_def np_power_def quad_right_def)

lemma chol_bm: "chol_2x2 [[1 / 100000, 1 / 100000], [1 / 100000, 10]] =
   Inr [[sqrt (1 / 100000), 0], [sqrt (1 / 100000), sqrt (999999 / 100000)]]"
proof -
  have a: "(1 / 100000) / sqrt (1 / 100000) = sqrt (1 / 100000 :: real)"
    by (rule real_div_sqrt) simp
  have b: "10 - (sqrt (1 / 100000 :: real))\<^sup>2 = 999999 / 100000"
    by simp
  show ?thesis
    unfolding chol_2x2_def by (simp only: list.case Let_def a b) simp
qed

lemma five: "(5::nat) = Suc (Suc (Suc (Suc (Suc 0))))"
  by simp

lemma ten: "(10::nat) = Suc (Suc (Suc (Suc (Suc (Suc (Suc (Suc (Suc (Suc 0)))))))))"
  by simp

lemma draw_path_2x2:
  "draw_path g c [[a, b], [p, q]] (Suc (Suc 0)) =
     Inr ([0, p * g c + q * g (Suc c)], Suc (Suc c))"
  by (simp add: draw_path_def normal_vec_def np_dot_def pin_origin_def upt_conv_Cons)

lemma draw_paths_2x2:
  "draw_paths example_draws 0 [[a, b], [p, q]] (Suc (Suc 0)) 5 = Inr (replicate 5 [0, p - q], 10)"
  unfolding five ten by (simp add: draw_path_2x2 example_draws_def)

lemma fbm_cell_single:
  "fbm_cell chol_2x2 example_draws 0 (time_grid 2) [1 / 2] =
     ([1 / 2 \<mapsto> replicate 5 [0, sqrt (1 / 100000) - sqrt (999999 / 100000)]], None)"
proof -
  have "sample_unit chol_2x2 example_draws 0 (Suc (Suc 0)) (fbm_mat_cov (time_grid 2) (1 / 2)) =
          Inr (replicate 5 [0, sqrt (1 / 100000) - sqrt (999999 / 100000)], 10)"
    unfolding sample_unit_def fbm_half chol_bm
    by (simp only: sum.case draw_paths_2x2)
  then show ?thesis
    by (simp add: fbm_cell_def length_time_grid numeral_2_eq_2)
qed

lemma rl_cell_single:
  "rl_cell chol_2x2 quad_right example_draws 0 (time_grid 2) [1 / 2] =
     ([1 / 2 \<mapsto> replicate 5 [0, sqrt (1 / 100000) - sqrt (999999 / 100000)]], None)"
proof -
  have "sample_unit chol_2x2 example_draws 0 (Suc (Suc 0))
          (rl_mat_cov quad_right (time_grid 2) (1 / 2)) =
          Inr (replicate 5 [0, sqrt (1 / 100000) - sqrt (999999 / 100000)], 10)"
    unfolding sample_unit_def rl_half chol_bm
    by (simp only: sum.case draw_paths_2x2)
  then show ?thesis
    by (simp add: rl_cell_def length_time_grid numeral_2_eq_2)
qed

lemma bm_path_example: "bm_path example_draws c 3 = ([0, example_draws c, example_draws c + example_draws (Suc c)], Suc (Suc c))"
  by (simp add: bm_path_def normal_def upt_conv_Cons)

lemma bm_cell_example:
  "fst (bm_cell example_draws 0 3) = replicate 5 [0, 1, 0]"
  unfolding bm_cell_def five by (simp add: bm_path_example example_draws_def)

lemma alpha_loop_complete_dom:
  "alpha_loop chol g N build alphas (X, c) = (X1, None) \<Longrightarrow> dom X1 = dom X \<union> set alphas"
proof (induction alphas arbitrary: X c)
  case Nil
  then show ?case by simp
next
  case (Cons a alphas)
  show ?case
  proof (cases "sample_unit chol g c N (build a)")
    case (Inl e)
    then show ?thesis using Cons.prems by simp
  next
    case (Inr p)
    obtain Zs c1 where p: "p = (Zs, c1)" by (cases p)
    have "alpha_loop chol g N build alphas (X(a \<mapsto> Zs), c1) = (X1, None)"
      using Cons.prems Inr p by simp
    then have "dom X1 = dom (X(a \<mapsto> Zs)) \<union> set alphas"
      by (rule Cons.IH)
    then show ?thesis by auto
  qed
qed

lemma alpha_loop_append_failure:
  assumes "chol (build alpha) = Inl e"
  shows "alpha_loop chol g N build as1 (X, c) = (X1, None) \<Longrightarrow>
         alpha_loop chol g N build (as1 @ alpha # as2) (X, c) = (X1, Some e)"
proof (induction as1 arbitrary: X c)
  case Nil
  then show ?case using assms by (simp add: sample_unit_def)
next
  case (Cons a as1)
  show ?case
  proof (cases "sample_unit chol g c N (build a)")
    case (Inl e')
    then show ?thesis using Cons.prems by simp
  next
    case (Inr p)
    obtain Zs c1 where p: "p = (Zs, c1)" by (cases p)
    have "alpha_loop chol g N build as1 (X(a \<mapsto> Zs), c1) = (X1, None)"
      using Cons.prems Inr p by simp
    then have "alpha_loop chol g N build (as1 @ alpha # as2) (X(a \<mapsto> Zs), c1) = (X1, Some e)"
      by (rule Cons.IH)
    then show ?thesis using Inr p by simp
  qed
qed

lemma draw_path_square:
  assumes "square N C" "0 < N"
  shows "\<exists>Y. draw_path g c C N = Inr (Y, c + N)"
proof -
  let ?z = "map g [c..<c + N]"
  have "list_all (\<lambda>row. length row = length ?z) C"
    using assms(1) by (simp add: square_def list_all_length)
  then have d: "np_dot C ?z = Inr (map (\<lambda>row. sum_list (map2 (*) row ?z)) C)"
    by (simp add: np_dot_def)
  have "map (\<lambda>row. sum_list (map2 (*) row ?z)) C \<noteq> []"
    using assms by (auto simp: square_def)
  then show ?thesis
    by (simp add: draw_path_def normal_vec_def d pin_origin_def)
qed

lemma draw_paths_square:
  assumes "square N C" "0 < N"
  shows "\<exists>Ys c'. draw_paths g c C N k = Inr (Ys, c')"
proof (induction k arbitrary: c)
  case 0
  then show ?case by simp
next
  case (Suc k)
  obtain Y where a: "draw_path g c C N = Inr (Y, c + N)"
    using draw_path_square [OF assms] by blast
  obtain Ys c' where b: "draw_paths g (c + N) C N k = Inr (Ys, c')"
    using Suc.IH by blast
  show ?case by (simp add: a b)
qed

lemma alpha_loop_single:
  assumes "chol (build alpha) = Inr C" "square N C" "0 < N"
  shows "\<exists>Ys. alpha_loop chol g N build [alpha] (X, c) = (X(alpha \<mapsto> Ys), None)"
proof -
  obtain Ys c' where "draw_paths g c C N 5 = Inr (Ys, c')"
    using draw_paths_square [OF assms(2,3)] by blast
  then have "alpha_loop chol g N build [alpha] (X, c) = (X(alpha \<mapsto> Ys), None)"
    using assms(1) by (simp add: sample_unit_def)
  then show ?thesis by blast
qed

lemma time_grid_3: "time_grid 3 = [1 / 100000, 1000001 / 200000, 10]"
  by (simp add: time_grid_def linspace_def upt_conv_Cons)

lemma assemble_3:
  "assemble entry (Suc (Suc (Suc 0))) =
     [[entry 0 0, entry 1 0, entry (Suc (Suc 0)) 0],
      [entry 1 0, entry 1 1, entry (Suc (Suc 0)) 1],
      [entry (Suc (Suc 0)) 0, entry (Suc (Suc 0)) 1, entry (Suc (Suc 0)) (Suc (Suc 0))]]"
  by (simp add: assemble_def zeros_def mat_set_def mat_get_def upt_conv_Cons)

lemma fbm_3_zero:
  "fbm_mat_cov (time_grid 3) 0 =
     [[1 / 2, 1 / 2, 1 / 2], [1 / 2, 1 / 2, 1 / 2], [1 / 2, 1 / 2, 1 / 2]]"
  by (simp add: fbm_mat_cov_def time_grid_3 assemble_3 fbm_entry_def np_power_def)

lemma fbm_3_half:
  "fbm_mat_cov (time_grid 3) (1 / 2) =
     [[1 / 100000, 1 / 100000, 1 / 100000],
      [1 / 100000, 1000001 / 200000, 1000001 / 200000],
      [1 / 100000, 1000001 / 200000, 10]]"
  by (simp add: fbm_mat_cov_def time_grid_3 assemble_3 fbm_entry_def np_power_def)

lemma chol_3x3_constant:
  assumes "0 < h"
  shows "chol_3x3 [[h, h, h], [h, h, h], [h, h, h]] = Inl LinAlgError"
proof -
  have a: "h / sqrt h = sqrt h"
    using assms by (intro real_div_sqrt) simp
  have b: "h - (sqrt h)\<^sup>2 = 0"
    using assms by simp
  show ?thesis
    unfolding chol_3x3_def using assms by (simp only: list.case Let_def a b) simp
qed

lemma chol_3x3_increments:
  assumes "0 < a" "a < b" "b < c"
  shows "chol_3x3 [[a, a, a], [a, b, b], [a, b, c]] =
           Inr [[sqrt a, 0, 0], [sqrt a, sqrt (b - a), 0], [sqrt a, sqrt (b - a), sqrt (c - b)]]"
proof -
  have d1: "a / sqrt a = sqrt a"
    using assms by (intro real_div_sqrt) simp
  have d2: "b - (sqrt a)\<^sup>2 = b - a"
    using assms by simp
  have d3: "(b - sqrt a * sqrt a) / sqrt (b - a) = sqrt (b - a)"
  proof -
    have "b - sqrt a * sqrt a = b - a" using assms by simp
    then show ?thesis using assms by (simp add: real_div_sqrt)
  qed
  have d4: "c - (sqrt a)\<^sup>2 - (sqrt (b - a))\<^sup>2 = c - b"
    using assms by simp
  show ?thesis
    unfolding chol_3x3_def using assms by (simp only: list.case Let_def d1 d2 d3 d4) simp
qed

lemma chol_3x3_fbm_zero: "chol_3x3 (fbm_mat_cov (time_grid 3) 0) = Inl LinAlgError"
  unfolding fbm_3_zero by (rule chol_3x3_constant) simp

lemma fbm_cell_3_single:
  "\<exists>Ys. fbm_cell chol_3x3 g c (time_grid 3) [1 / 2] = ([1 / 2 \<mapsto> Ys], None)"
proof -
  have f: "chol_3x3 (fbm_mat_cov (time_grid 3) (1 / 2)) =
     Inr [[sqrt (1 / 100000), 0, 0],
          [sqrt (1 / 100000), sqrt (1000001 / 200000 - 1 / 100000), 0],
          [sqrt (1 / 100000), sqrt (1000001 / 200000 - 1 / 100000), sqrt (10 - 1000001 / 200000)]]"
    unfolding fbm_3_half by (rule chol_3x3_increments) simp_all
  have s: "square 3 [[sqrt (1 / 100000), 0, 0],
          [sqrt (1 / 100000), sqrt (1000001 / 200000 - 1 / 100000), 0],
          [sqrt (1 / 100000), sqrt (1000001 / 200000 - 1 / 100000), sqrt (10 - 1000001 / 200000 :: real)]]"
    by (simp add: square_def nth_Cons split: nat.splits)
  show ?thesis
    unfolding fbm_cell_def length_time_grid
    by (rule alpha_loop_single [of chol_3x3 "fbm_mat_cov (time_grid 3)" "1 / 2", OF f s]) simp
qed

text \<open>
  Claim C3 has a failed factorisation abort one unit of work only. Nothing in the cells
  catches the exception. On the grid of three points with \<open>alpha = 0\<close> the fBm matrix
  has all entries \<open>0.5\<close> and is singular; the factorisation fails, the cell stops with
  \<open>LinAlgError\<close> and an empty \<open>X_frac\<close>, and \<open>alpha = 0.5\<close>, which the cell processes
  when it comes alone, is never reached.
\<close>

theorem cholesky_failure_counterexample:
  "chol_3x3 (fbm_mat_cov (time_grid 3) 0) = Inl LinAlgError \<and>
   fbm_cell chol_3x3 example_draws 0 (time_grid 3) [0, 1 / 2] = (Map.empty, Some LinAlgError) \<and>
   snd (fbm_cell chol_3x3 example_draws 0 (time_grid 3) [1 / 2]) = None \<and>
   fst (fbm_cell chol_3x3 example_draws 0 (time_grid 3) [1 / 2]) (1 / 2) \<noteq> None"
proof -
  have a: "fbm_cell chol_3x3 example_draws 0 (time_grid 3) [0, 1 / 2] =
             (Map.empty, Some LinAlgError)"
    by (simp add: fbm_cell_def sample_unit_def chol_3x3_fbm_zero)
  obtain Ys where "fbm_cell chol_3x3 example_draws 0 (time_grid 3) [1 / 2] =
                     ([1 / 2 \<mapsto> Ys], None)"
    using fbm_cell_3_single by blast
  then show ?thesis
    using a chol_3x3_fbm_zero by simp
qed

text \<open>
  Claim C3, amended. A failure of the Cholesky factorisation for one \<open>alpha\<close> ends the
  whole loop over \<open>alphas\<close>, in the fBm cell and in the Riemann-Liouville cell (\<open>rl\<close>
  tells which): when the values before it in the list have been processed, the cell stops
  with the exception of the factorisation, \<open>X_frac\<close> holds the batches of exactly those
  earlier values, as the cell run on them alone leaves them, and neither the failing value
  nor any later one is processed.
\<close>

theorem cholesky_failure_aborts_loop:
  assumes "chol (if rl then rl_mat_cov quad time alpha else fbm_mat_cov time alpha) = Inl e"
    and "(if rl then rl_cell chol quad g c time as1 else fbm_cell chol g c time as1) = (X1, None)"
  shows "(if rl then rl_cell chol quad g c time (as1 @ alpha # as2)
          else fbm_cell chol g c time (as1 @ alpha # as2)) = (X1, Some e) \<and>
         dom X1 = set as1"
proof (cases rl)
  case True
  with assms have f: "chol (rl_mat_cov quad time alpha) = Inl e"
    and p: "alpha_loop chol g (length time) (rl_mat_cov quad time) as1 (Map.empty, c) = (X1, None)"
    by (simp_all add: rl_cell_def)
  have "rl_cell chol quad g c time (as1 @ alpha # as2) = (X1, Some e)"
    unfolding rl_cell_def using f p by (rule alpha_loop_append_failure)
  moreover have "dom X1 = set as1"
    using alpha_loop_complete_dom [OF p] by simp
  ultimately show ?thesis using True by simp
next
  case False
  with assms have f: "chol (fbm_mat_cov time alpha) = Inl e"
    and p: "alpha_loop chol g (length time) (fbm_mat_cov time) as1 (Map.empty, c) = (X1, None)"
    by (simp_all add: fbm_cell_def)
  have "fbm_cell chol g c time (as1 @ alpha # as2) = (X1, Some e)"
    unfolding fbm_cell_def using f p by (rule alpha_loop_append_failure)
  moreover have "dom X1 = set as1"
    using alpha_loop_complete_dom [OF p] by simp
  ultimately show ?thesis using False by simp
qed

theorem cholesky_failure_aborts_loop_witness:
  "chol_3x3 (fbm_mat_cov (time_grid 3) 0) = Inl LinAlgError \<and>
   snd (fbm_cell chol_3x3 example_draws 0 (time_grid 3) [1 / 2]) = None \<and>
   fbm_cell chol_3x3 example_draws 0 (time_grid 3) ([1 / 2] @ 0 # [3 / 4]) =
     (fst (fbm_cell chol_3x3 example_draws 0 (time_grid 3) [1 / 2]), Some LinAlgError) \<and>
   dom (fst (fbm_cell chol_3x3 example_draws 0 (time_grid 3) [1 / 2])) = set [1 / 2] \<and>
   fst (fbm_cell chol_3x3 example_draws 0 (time_grid 3) ([1 / 2] @ 0 # [3 / 4])) 0 = None \<and>
   fst (fbm_cell chol_3x3 example_draws 0 (time_grid 3) ([1 / 2] @ 0 # [3 / 4])) (3 / 4) = None"
proof -
  let ?X1 = "fst (fbm_cell chol_3x3 example_draws 0 (time_grid 3) [1 / 2])"
  obtain Ys where s: "fbm_cell chol_3x3 example_draws 0 (time_grid 3) [1 / 2] =
                        ([1 / 2 \<mapsto> Ys], None)"
    using fbm_cell_3_single by blast
  have a: "chol_3x3 (if False then rl_mat_cov quad_right (time_grid 3) 0
                     else fbm_mat_cov (time_grid 3) 0) = Inl LinAlgError"
    by (simp add: chol_3x3_fbm_zero)
  have b: "(if False then rl_cell chol_3x3 quad_right example_draws 0 (time_grid 3) [1 / 2]
            else fbm_cell chol_3x3 example_draws 0 (time_grid 3) [1 / 2]) = (?X1, None)"
    by (simp add: s)
  note T = cholesky_failure_aborts_loop [OF a b, of "[3 / 4]"]
  have t1: "fbm_cell chol_3x3 example_draws 0 (time_grid 3) ([1 / 2] @ 0 # [3 / 4]) =
              (?X1, Some LinAlgError)"
    using T by simp
  have t2: "dom ?X1 = set [1 / 2]"
    using T by simp
  have n: "?X1 0 = None" "?X1 (3 / 4) = None"
    by (simp_all add: s)
  show ?thesis
    using t1 t2 n chol_3x3_fbm_zero s by simp
qed

text \<open>
  Claim C7. Every path of every batch starts at zero: the paths of the Brownian cell, and
  the paths stored in \<open>X_frac\<close> and \<open>X_riem\<close> for every \<open>alpha\<close>, whatever the
  factorisation and the quadrature routine return.
\<close>

theorem paths_start_at_zero:
  "(\<forall>W\<in>set (fst (bm_cell g c N)). W ! 0 = 0) \<and>
   (\<forall>alpha Ys. fst (fbm_cell chol g c time alphas) alpha = Some Ys \<longrightarrow>
      (\<forall>Y\<in>set Ys. Y \<noteq> [] \<and> Y ! 0 = 0)) \<and>
   (\<forall>alpha Ys. fst (rl_cell chol quad g c time alphas) alpha = Some Ys \<longrightarrow>
      (\<forall>Y\<in>set Ys. Y \<noteq> [] \<and> Y ! 0 = 0))"
proof (intro conjI ballI allI impI)
  show "W ! 0 = 0" if "W \<in> set (fst (bm_cell g c N))" for W
    using that unfolding bm_cell_def by (rule bm_paths_origin)
next
  fix alpha Ys Y
  assume "fst (fbm_cell chol g c time alphas) alpha = Some Ys" "Y \<in> set Ys"
  then have "Y \<noteq> [] \<and> Y ! 0 = 0"
    unfolding fbm_cell_def by (intro alpha_loop_origin [of Map.empty]) simp_all
  then show "Y \<noteq> []" "Y ! 0 = 0" by simp_all
next
  fix alpha Ys Y
  assume "fst (rl_cell chol quad g c time alphas) alpha = Some Ys" "Y \<in> set Ys"
  then have "Y \<noteq> [] \<and> Y ! 0 = 0"
    unfolding rl_cell_def by (intro alpha_loop_origin [of Map.empty]) simp_all
  then show "Y \<noteq> []" "Y ! 0 = 0" by simp_all
qed

theorem paths_start_at_zero_witness:
  "[0, 1, 0] \<in> set (fst (bm_cell example_draws 0 3)) \<and> [0, 1, 0 :: real] ! 0 = 0 \<and>
   fst (fbm_cell chol_2x2 example_draws 0 (time_grid 2) [1 / 2]) (1 / 2) =
     Some (replicate 5 [0, sqrt (1 / 100000) - sqrt (999999 / 100000)]) \<and>
   fst (rl_cell chol_2x2 quad_right example_draws 0 (time_grid 2) [1 / 2]) (1 / 2) =
     Some (replicate 5 [0, sqrt (1 / 100000) - sqrt (999999 / 100000)]) \<and>
   [0, sqrt (1 / 100000) - sqrt (999999 / 100000)] \<in>
     set (replicate 5 [0, sqrt (1 / 100000) - sqrt (999999 / 100000)]) \<and>
   [0, sqrt (1 / 100000) - sqrt (999999 / 100000)] \<noteq> [] \<and>
   [0, sqrt (1 / 100000) - sqrt (999999 / 100000)] ! 0 = 0"
proof -
  let ?Y = "[0, sqrt (1 / 100000) - sqrt (999999 / 100000)]"
  note T = paths_start_at_zero [of example_draws 0 3 chol_2x2 "time_grid 2" "[1 / 2]" quad_right]
  have a: "[0, 1, 0] \<in> set (fst (bm_cell example_draws 0 3))"
    by (simp add: bm_cell_example)
  have b: "fst (fbm_cell chol_2x2 example_draws 0 (time_grid 2) [1 / 2]) (1 / 2) =
             Some (replicate 5 ?Y)"
    by (simp add: fbm_cell_single)
  have c: "fst (rl_cell chol_2x2 quad_right example_draws 0 (time_grid 2) [1 / 2]) (1 / 2) =
             Some (replicate 5 ?Y)"
    by (simp add: rl_cell_single)
  have d: "?Y \<in> set (replicate 5 ?Y)"
    by simp
  have "[0, 1, 0 :: real] ! 0 = 0"
    using T [THEN conjunct1, rule_format, OF a] .
  moreover have "?Y \<noteq> [] \<and> ?Y ! 0 = 0"
    using T [THEN conjunct2, THEN conjunct1, rule_format, OF b d] .
  moreover have "?Y \<noteq> [] \<and> ?Y ! 0 = 0"
    using T [THEN conjunct2, THEN conjunct2, rule_format, OF c d] .
  ultimately show ?thesis using a b c d by blast
qed

text \<open>
  Claim C8. The Brownian path is built without a covariance matrix or a factor, from the
  draws alone: \<open>W[0] = 0\<close> and \<open>W[i] = W[i-1] + Z\<^sub>i\<close> for \<open>i\<close> from \<open>1\<close> to \<open>N - 1\<close>,
  where \<open>Z\<^sub>i\<close> is the \<open>i\<close>-th value drawn for this path.
\<close>

theorem bm_path_prefix_sums:
  "length (fst (bm_path g c N)) = max 1 N \<and>
   fst (bm_path g c N) ! 0 = 0 \<and>
   (\<forall>i. 1 \<le> i \<and> i < N \<longrightarrow>
      fst (bm_path g c N) ! i = fst (bm_path g c N) ! (i - 1) + g (c + (i - 1))) \<and>
   snd (bm_path g c N) = c + (N - 1)"
proof -
  obtain W c' where p: "bm_path g c N = (W, c')" by (cases "bm_path g c N")
  show ?thesis
    unfolding p fst_conv snd_conv
    using bm_path_recursion [OF p] by blast
qed

theorem bm_path_prefix_sums_witness:
  "(1::nat) \<le> 2 \<and> (2::nat) < 3 \<and> fst (bm_path example_draws 0 3) = [0, 1, 0] \<and>
   fst (bm_path example_draws 0 3) ! 2 =
     fst (bm_path example_draws 0 3) ! (2 - 1) + example_draws (0 + (2 - 1))"
proof -
  have a: "fst (bm_path example_draws 0 3) = [0, 1, 0]"
    by (simp add: bm_path_example example_draws_def)
  have "fst (bm_path example_draws 0 3) ! 2 =
     fst (bm_path example_draws 0 3) ! (2 - 1) + example_draws (0 + (2 - 1))"
    using bm_path_prefix_sums [of example_draws 0 3] by simp
  then show ?thesis using a by simp
qed

text \<open>
  Claim C9. Pinning the projected path at the origin changes index \<open>0\<close> only: for every
  noise vector and every factor, each entry at an index \<open>i\<close> from \<open>1\<close> on is still the
  \<open>i\<close>-th component of the product of the factor and the noise vector.
\<close>

theorem pin_origin_keeps_rest:
  assumes "draw_path g c C N = Inr (Y', c')" "1 \<le> i" "i < length C"
  shows "\<exists>Y. np_dot C (fst (normal_vec g c N)) = Inr Y \<and> pin_origin Y = Inr Y' \<and>
           length Y' = length C \<and> Y' ! i = Y ! i \<and> Y ! i = (\<Sum>k<N. C ! i ! k * g (c + k))"
proof -
  let ?z = "map g [c..<c + N]"
  obtain Y where d: "np_dot C ?z = Inr Y" and p: "pin_origin Y = Inr Y'"
    using assms(1) by (auto simp: draw_path_def normal_vec_def split: sum.splits)
  have "Y ! i = (\<Sum>k<length ?z. C ! i ! k * ?z ! k)"
    using np_dot_nth(3) [OF d assms(3)] .
  also have "\<dots> = (\<Sum>k<N. C ! i ! k * g (c + k))"
    by (intro sum.cong) simp_all
  finally have v: "Y ! i = (\<Sum>k<N. C ! i ! k * g (c + k))" .
  have "length Y' = length C"
    using pin_origin_nth(2) [OF p] np_dot_nth(1) [OF d] by simp
  moreover have "Y' ! i = Y ! i"
    using pin_origin_nth(4) [OF p assms(2)] .
  ultimately show ?thesis
    using d p v by (intro exI [of _ Y]) (simp add: normal_vec_def)
qed

theorem pin_origin_keeps_rest_witness:
  "draw_path example_draws 0 [[1, 0], [1, 2]] 2 = Inr ([0, - 1], 2) \<and>
   (1::nat) \<le> 1 \<and> 1 < length [[1, 0], [1, 2 :: real]] \<and>
   np_dot [[1, 0], [1, 2]] (fst (normal_vec example_draws 0 2)) = Inr [1, - 1] \<and>
   [0, - 1 :: real] ! 1 = [1, - 1] ! 1"
proof -
  have a: "draw_path example_draws 0 [[1, 0], [1, 2]] 2 = Inr ([0, - 1], 2)"
    by (simp add: draw_path_2x2 example_draws_def numeral_2_eq_2)
  have b: "(1::nat) \<le> 1" "1 < length [[1, 0], [1, 2 :: real]]"
    by simp_all
  have d: "np_dot [[1, 0], [1, 2]] (fst (normal_vec example_draws 0 2)) = Inr [1, - 1]"
    by (simp add: np_dot_def normal_vec_def example_draws_def upt_conv_Cons)
  obtain Y where "np_dot [[1, 0], [1, 2]] (fst (normal_vec example_draws 0 2)) = Inr Y"
    and "[0, - 1 :: real] ! 1 = Y ! 1"
    using pin_origin_keeps_rest [OF a b] by blast
  then show ?thesis using a b d by simp
qed

end
